theory Spec2Isabelle
  imports Main
begin

section \<open>The offline batch-inference driver \<open>LLM\<close> of \<open>aphrodite/endpoints/llm.py\<close>\<close>

subsection \<open>Data model\<close>

text \<open>
  Modelled from the spec: \<open>RequestOutput\<close> (\<open>aphrodite.common.outputs\<close>) is imported by the
  driver but its class is not part of the given source. The driver reads only the field
  \<open>finished\<close>; the spec's data model adds the request identifier and an opaque payload that
  the driver passes through untouched.
\<close>

record RequestOutput =
  request_id :: string
  finished :: bool
  payload :: string

text \<open>
  The exceptions that can leave \<open>generate\<close>: the two \<open>ValueError\<close>s raised by the driver
  itself (the spec's \<open>InvalidArgument\<close>), the \<open>IndexError\<close> of a list subscript out of
  range, the \<open>TypeError\<close> of \<open>len(None)\<close>, and whatever the engine raises, carried
  unchanged.
\<close>

datatype error = ValueError string | IndexError | TypeError | EngineFailure string

text \<open>
  The \<open>prompts\<close> argument is \<open>Optional[Union[str, List[str]]]\<close>: absent, one bare string, or
  a list of strings.
\<close>

datatype prompts_arg = Bare string | Batch "string list"

text \<open>
  The engine (\<open>AphroditeEngine\<close>) is an external collaborator that the driver uses through
  four methods only. It is a parameter of the model: a state type \<open>'e\<close> and the four
  methods as functions on it. \<open>add_request\<close> and \<open>step\<close> mutate the engine and may raise
  (\<open>Inl\<close> carries the engine's error); the engine state is returned in either case, since a
  raising call may already have changed it. The two queries are read-only. The sampling
  parameters are an opaque type \<open>'sp\<close>.
\<close>

record ('e, 'sp) engine =
  add_request :: "string \<Rightarrow> string option \<Rightarrow> 'sp \<Rightarrow> int list option \<Rightarrow> 'e \<Rightarrow> (string + unit) \<times> 'e"
  step :: "'e \<Rightarrow> (string + RequestOutput list) \<times> 'e"
  has_unfinished_requests :: "'e \<Rightarrow> bool"
  get_num_unfinished_requests :: "'e \<Rightarrow> int"

text \<open>
  The fields of an \<open>LLM\<close> instance, as \<open>__init__\<close> sets them: the engine and the request
  counter.
\<close>

record 'e LLM =
  aphrodite :: 'e
  request_counter :: nat

text \<open>
  The progress bar is an external object as well; the model keeps the calls made on it,
  in order: construction with a total, \<open>update\<close> and \<open>close\<close>.
\<close>

datatype tqdm_call = Tqdm_new int | Tqdm_update int | Tqdm_close

subsection \<open>Request identifiers\<close>

text \<open>
  Modelled from the spec: \<open>Counter\<close> (\<open>aphrodite.common.utils\<close>) is not part of the given
  source. The spec describes a single monotonically increasing counter that is never reused
  and never decremented: \<open>next\<close> returns the current value and advances the counter by one.
\<close>

definition Counter :: nat where
  "Counter = 0"

definition Counter_next :: "nat \<Rightarrow> nat \<times> nat" where
  "Counter_next c = (c, c + 1)"

text \<open>Python's \<open>str\<close> on a non-negative integer: its decimal digits, most significant first.\<close>

definition digit_char :: "nat \<Rightarrow> char" where
  "digit_char d = char_of (48 + d)"

fun str :: "nat \<Rightarrow> string" where
  "str n = (if n < 10 then [digit_char n] else str (n div 10) @ [digit_char (n mod 10)])"

subsection \<open>The driver\<close>

text \<open>List subscript \<open>xs[i]\<close> for a non-negative index: \<open>IndexError\<close> out of range.\<close>

definition subscript :: "'a list \<Rightarrow> nat \<Rightarrow> error + 'a" where
  "subscript xs i = (if i < length xs then Inr (xs ! i) else Inl IndexError)"

text \<open>\<open>LLM._add_request\<close>: take the next counter value as the identifier, hand the request
  to the engine.\<close>

definition LLM_add_request ::
  "('e, 'sp) engine \<Rightarrow> string option \<Rightarrow> 'sp \<Rightarrow> int list option \<Rightarrow> 'e LLM \<Rightarrow> (error + unit) \<times> 'e LLM" where
  "LLM_add_request E prompt sampling_params prompt_token_ids self =
     (case Counter_next (request_counter self) of (c, counter') \<Rightarrow>
        (let request_id = str c;
             self1 = self\<lparr>request_counter := counter'\<rparr>
         in (case add_request E request_id prompt sampling_params prompt_token_ids (aphrodite self1) of
               (Inl err, e') \<Rightarrow> (Inl (EngineFailure err), self1\<lparr>aphrodite := e'\<rparr>)
             | (Inr u, e') \<Rightarrow> (Inr (), self1\<lparr>aphrodite := e'\<rparr>))))"

text \<open>The body of \<open>for i in range(num_requests)\<close> in \<open>generate\<close>, for one index.\<close>

definition submit_one ::
  "('e, 'sp) engine \<Rightarrow> string list option \<Rightarrow> 'sp \<Rightarrow> int list list option \<Rightarrow> nat \<Rightarrow> 'e LLM
     \<Rightarrow> (error + unit) \<times> 'e LLM" where
  "submit_one E prompts sampling_params prompt_token_ids i self =
     (case (case prompts of None \<Rightarrow> Inr None
            | Some ps \<Rightarrow> (case subscript ps i of Inl err \<Rightarrow> Inl err | Inr p \<Rightarrow> Inr (Some p))) of
        Inl err \<Rightarrow> (Inl err, self)
      | Inr prompt \<Rightarrow>
          (case (case prompt_token_ids of None \<Rightarrow> Inr None
                 | Some ts \<Rightarrow> (case subscript ts i of Inl err \<Rightarrow> Inl err | Inr t \<Rightarrow> Inr (Some t))) of
             Inl err \<Rightarrow> (Inl err, self)
           | Inr token_ids \<Rightarrow> LLM_add_request E prompt sampling_params token_ids self))"

text \<open>The \<open>for\<close> loop over the indices; the first exception ends it.\<close>

fun submit_loop ::
  "('e, 'sp) engine \<Rightarrow> string list option \<Rightarrow> 'sp \<Rightarrow> int list list option \<Rightarrow> nat list \<Rightarrow> 'e LLM
     \<Rightarrow> (error + unit) \<times> 'e LLM" where
  "submit_loop E prompts sampling_params prompt_token_ids [] self = (Inr (), self)"
| "submit_loop E prompts sampling_params prompt_token_ids (i # is) self =
     (case submit_one E prompts sampling_params prompt_token_ids i self of
        (Inl err, self') \<Rightarrow> (Inl err, self')
      | (Inr u, self') \<Rightarrow> submit_loop E prompts sampling_params prompt_token_ids is self')"

text \<open>The inner loop of \<open>_run_engine\<close>: \<open>for output in step_outputs\<close>, keeping the finished
  outputs and updating the progress bar once for each.\<close>

fun collect ::
  "bool \<Rightarrow> RequestOutput list \<Rightarrow> RequestOutput list \<Rightarrow> tqdm_call list
     \<Rightarrow> RequestOutput list \<times> tqdm_call list" where
  "collect use_tqdm [] outputs pbar = (outputs, pbar)"
| "collect use_tqdm (output # rest) outputs pbar =
     (if finished output
      then collect use_tqdm rest (outputs @ [output])
             (if use_tqdm then pbar @ [Tqdm_update 1] else pbar)
      else collect use_tqdm rest outputs pbar)"

text \<open>The progress-bar calls that the inner loop makes for one list of step outputs.\<close>

definition tqdm_updates :: "bool \<Rightarrow> RequestOutput list \<Rightarrow> tqdm_call list" where
  "tqdm_updates use_tqdm step_outputs =
     (if use_tqdm then replicate (length (filter finished step_outputs)) (Tqdm_update 1) else [])"

text \<open>
  The \<open>while self.aphrodite.has_unfinished_requests()\<close> loop. Nothing bounds the number of
  iterations: when the engine never runs out of unfinished requests the loop does not
  return, which is the value \<open>None\<close>.
\<close>

partial_function (option) poll_loop ::
  "('e, 'sp) engine \<Rightarrow> bool \<Rightarrow> 'e \<Rightarrow> RequestOutput list \<Rightarrow> tqdm_call list
     \<Rightarrow> ((string + RequestOutput list) \<times> 'e \<times> tqdm_call list) option" where
  "poll_loop E use_tqdm e outputs pbar =
     (if has_unfinished_requests E e
      then (case step E e of
              (Inl err, e') \<Rightarrow> Some (Inl err, e', pbar)
            | (Inr step_outputs, e') \<Rightarrow>
                (case collect use_tqdm step_outputs outputs pbar of
                   (outputs', pbar') \<Rightarrow> poll_loop E use_tqdm e' outputs' pbar'))
      else Some (Inr outputs, e, pbar))"

text \<open>\<open>LLM._run_engine\<close>. The third component of the result is the calls made on the
  progress bar.\<close>

definition LLM_run_engine ::
  "('e, 'sp) engine \<Rightarrow> bool \<Rightarrow> 'e LLM \<Rightarrow> ((error + RequestOutput list) \<times> 'e LLM \<times> tqdm_call list) option" where
  "LLM_run_engine E use_tqdm self =
     (let pbar = (if use_tqdm then [Tqdm_new (get_num_unfinished_requests E (aphrodite self))] else [])
      in case poll_loop E use_tqdm (aphrodite self) [] pbar of
           None \<Rightarrow> None
         | Some (Inl err, e', pbar') \<Rightarrow> Some (Inl (EngineFailure err), self\<lparr>aphrodite := e'\<rparr>, pbar')
         | Some (Inr outputs, e', pbar') \<Rightarrow>
             Some (Inr outputs, self\<lparr>aphrodite := e'\<rparr>, if use_tqdm then pbar' @ [Tqdm_close] else pbar'))"

text \<open>
  \<open>LLM.generate\<close> up to the call of \<open>_run_engine\<close>: argument checks, defaults and the
  submission loop. \<open>default_params\<close> stands for \<open>SamplingParams()\<close>, whose class is not
  part of the given source. \<open>len(prompt_token_ids)\<close> with both arguments \<open>None\<close> would be a
  \<open>TypeError\<close>; the first check has raised before.
\<close>

definition submit_phase ::
  "('e, 'sp) engine \<Rightarrow> 'sp \<Rightarrow> prompts_arg option \<Rightarrow> 'sp option \<Rightarrow> int list list option
     \<Rightarrow> 'e LLM \<Rightarrow> (error + unit) \<times> 'e LLM" where
  "submit_phase E default_params prompts sampling_params prompt_token_ids self =
     (if prompts = None \<and> prompt_token_ids = None
      then (Inl (ValueError ''Either prompts or prompt_token_ids must be provided.''), self)
      else
        let prompts1 = (case prompts of None \<Rightarrow> None
                        | Some (Bare s) \<Rightarrow> Some [s]
                        | Some (Batch ps) \<Rightarrow> Some ps)
        in if (case prompts1 of None \<Rightarrow> False
               | Some ps \<Rightarrow> (case prompt_token_ids of None \<Rightarrow> False
                            | Some ts \<Rightarrow> length ps \<noteq> length ts))
           then (Inl (ValueError ''The lenghts of prompts and prompt_token_ids must be the same.''), self)
           else
             let sampling_params1 = (case sampling_params of None \<Rightarrow> default_params | Some sp \<Rightarrow> sp)
             in case (case prompts1 of Some ps \<Rightarrow> Inr (length ps)
                      | None \<Rightarrow> (case prompt_token_ids of Some ts \<Rightarrow> Inr (length ts)
                                  | None \<Rightarrow> Inl TypeError)) of
                  Inl err \<Rightarrow> (Inl err, self)
                | Inr num_requests \<Rightarrow>
                    submit_loop E prompts1 sampling_params1 prompt_token_ids [0..<num_requests] self)"

text \<open>\<open>LLM.generate\<close>: an exception of the first part leaves the method; otherwise the
  result is that of \<open>_run_engine\<close>.\<close>

definition LLM_generate ::
  "('e, 'sp) engine \<Rightarrow> 'sp \<Rightarrow> prompts_arg option \<Rightarrow> 'sp option \<Rightarrow> int list list option \<Rightarrow> bool
     \<Rightarrow> 'e LLM \<Rightarrow> ((error + RequestOutput list) \<times> 'e LLM \<times> tqdm_call list) option" where
  "LLM_generate E default_params prompts sampling_params prompt_token_ids use_tqdm self =
     (case submit_phase E default_params prompts sampling_params prompt_token_ids self of
        (Inl err, self') \<Rightarrow> Some (Inl err, self', [])
      | (Inr u, self') \<Rightarrow> LLM_run_engine E use_tqdm self')"

text \<open>A result of \<open>generate\<close> or of the poll loop without the progress-bar calls.\<close>

definition without_pbar :: "'a \<times> 'b \<times> 'c \<Rightarrow> 'a \<times> 'b" where
  "without_pbar y = (fst y, fst (snd y))"

subsection \<open>Observing the engine\<close>

text \<open>
  The calls that reach the engine are observed by wrapping it: \<open>recording E\<close> behaves as
  \<open>E\<close> and appends every \<open>add_request\<close> (with its arguments) and every \<open>step\<close> to a log kept
  beside the state of \<open>E\<close>, whether or not the call raises.
\<close>

datatype 'sp engine_call =
  Call_add_request string "string option" 'sp "int list option"
| Call_step

definition recording :: "('e, 'sp) engine \<Rightarrow> ('e \<times> 'sp engine_call list, 'sp) engine" where
  "recording E =
     \<lparr> add_request = (\<lambda>rid prompt sp toks (e, log).
          case add_request E rid prompt sp toks e of
            (r, e') \<Rightarrow> (r, (e', log @ [Call_add_request rid prompt sp toks]))),
       step = (\<lambda>(e, log). case step E e of (r, e') \<Rightarrow> (r, (e', log @ [Call_step]))),
       has_unfinished_requests = (\<lambda>(e, log). has_unfinished_requests E e),
       get_num_unfinished_requests = (\<lambda>(e, log). get_num_unfinished_requests E e) \<rparr>"

fun is_add_request :: "'sp engine_call \<Rightarrow> bool" where
  "is_add_request (Call_add_request rid prompt sp toks) = True"
| "is_add_request Call_step = False"

definition submissions :: "'sp engine_call list \<Rightarrow> 'sp engine_call list" where
  "submissions log = filter is_add_request log"

fun submitted_ids :: "'sp engine_call list \<Rightarrow> string list" where
  "submitted_ids [] = []"
| "submitted_ids (Call_add_request rid prompt sp toks # log) = rid # submitted_ids log"
| "submitted_ids (Call_step # log) = submitted_ids log"

text \<open>
  A run of the poll loop seen from the engine: \<open>polls E e ss e'\<close> holds when, starting in
  state \<open>e\<close>, the engine reports unfinished requests and \<open>step\<close> returns normally once for
  each element of \<open>ss\<close>, in this order, returning that element, and ends in state \<open>e'\<close>.
\<close>

inductive polls :: "('e, 'sp) engine \<Rightarrow> 'e \<Rightarrow> RequestOutput list list \<Rightarrow> 'e \<Rightarrow> bool"
  for E :: "('e, 'sp) engine" where
  polls_Nil: "polls E e [] e"
| polls_Cons: "has_unfinished_requests E e \<Longrightarrow> step E e = (Inr step_outputs, e1)
     \<Longrightarrow> polls E e1 ss e' \<Longrightarrow> polls E e (step_outputs # ss) e'"

subsection \<open>The arguments, as the spec describes them\<close>

text \<open>A bare prompt string stands for the batch of that one prompt.\<close>

fun batch_of :: "prompts_arg \<Rightarrow> string list" where
  "batch_of (Bare s) = [s]"
| "batch_of (Batch ps) = ps"

text \<open>The arguments the spec calls invalid: neither prompts nor token ids, or both with
  different lengths.\<close>

fun invalid_arguments :: "prompts_arg option \<Rightarrow> int list list option \<Rightarrow> bool" where
  "invalid_arguments None None = True"
| "invalid_arguments (Some p) (Some ts) = (length (batch_of p) \<noteq> length ts)"
| "invalid_arguments (Some p) None = False"
| "invalid_arguments None (Some ts) = False"

text \<open>The size of the batch, and the prompt and token ids at one position of it.\<close>

definition num_requests :: "prompts_arg option \<Rightarrow> int list list option \<Rightarrow> nat" where
  "num_requests prompts toks =
     (case prompts of Some p \<Rightarrow> length (batch_of p)
      | None \<Rightarrow> (case toks of Some ts \<Rightarrow> length ts | None \<Rightarrow> 0))"

definition nth_request ::
  "prompts_arg option \<Rightarrow> int list list option \<Rightarrow> nat \<Rightarrow> string option \<times> int list option" where
  "nth_request prompts toks k =
     (map_option (\<lambda>p. batch_of p ! k) prompts, map_option (\<lambda>ts. ts ! k) toks)"

text \<open>The sampling configuration of a call: the caller's, or the default when omitted.\<close>

fun params_or_default :: "'sp \<Rightarrow> 'sp option \<Rightarrow> 'sp" where
  "params_or_default d None = d"
| "params_or_default d (Some sp) = sp"

text \<open>The request at one position of the batch, with the sampling configuration of the
  call.\<close>

definition req_at ::
  "'sp \<Rightarrow> prompts_arg option \<Rightarrow> 'sp option \<Rightarrow> int list list option \<Rightarrow> nat
     \<Rightarrow> string option \<times> 'sp \<times> int list option" where
  "req_at d prompts sp toks i =
     (fst (nth_request prompts toks i), params_or_default d sp, snd (nth_request prompts toks i))"

text \<open>The spec's normalised requests: one triple of prompt, sampling configuration and
  token ids for each position of the batch.\<close>

fun normalize ::
  "'sp \<Rightarrow> prompts_arg option \<Rightarrow> 'sp option \<Rightarrow> int list list option
     \<Rightarrow> (string option \<times> 'sp \<times> int list option) list" where
  "normalize d None sp None = []"
| "normalize d (Some p) sp None =
     map (\<lambda>x. (Some x, params_or_default d sp, None)) (batch_of p)"
| "normalize d None sp (Some ts) =
     map (\<lambda>t. (None, params_or_default d sp, Some t)) ts"
| "normalize d (Some p) sp (Some ts) =
     map (\<lambda>(x, t). (Some x, params_or_default d sp, Some t)) (zip (batch_of p) ts)"

text \<open>The calls of \<open>add_request\<close> expected for normalised requests when the counter is at
  \<open>c\<close>: consecutive identifiers, in the order of the requests.\<close>

fun expected_calls ::
  "nat \<Rightarrow> (string option \<times> 'sp \<times> int list option) list \<Rightarrow> 'sp engine_call list" where
  "expected_calls c [] = []"
| "expected_calls c ((prompt, sp, toks) # rs) =
     Call_add_request (str c) prompt sp toks # expected_calls (c + 1) rs"

subsection \<open>A scripted engine\<close>

text \<open>
  A small engine for concrete runs. It keeps the requests it was given, in order, each
  with its text, and a script: each \<open>step\<close> consumes one entry, which either names the
  identifiers that finish in that step or makes the step raise. With the script used up, a
  step finishes every remaining request. \<open>add_request\<close> raises for the prompts listed in
  \<open>refused\<close>. Every step reports all requests it holds, finished or not.
\<close>

datatype fake_step = Finish "string list" | Raise string

record fake_state =
  running :: "(string \<times> string) list"
  script :: "fake_step list"
  refused :: "string list"

definition fake_add_request ::
  "string \<Rightarrow> string option \<Rightarrow> nat \<Rightarrow> int list option \<Rightarrow> fake_state \<Rightarrow> (string + unit) \<times> fake_state" where
  "fake_add_request rid prompt sp toks s =
     (case prompt of
        None \<Rightarrow> (Inr (), s\<lparr>running := running s @ [(rid, [])]\<rparr>)
      | Some p \<Rightarrow> if p \<in> set (refused s) then (Inl ''refused'', s)
                  else (Inr (), s\<lparr>running := running s @ [(rid, p)]\<rparr>))"

definition fake_output :: "string list \<Rightarrow> string \<times> string \<Rightarrow> RequestOutput" where
  "fake_output fin r = \<lparr>request_id = fst r, finished = (fst r \<in> set fin), payload = snd r\<rparr>"

definition fake_step :: "fake_state \<Rightarrow> (string + RequestOutput list) \<times> fake_state" where
  "fake_step s =
     (case script s of
        [] \<Rightarrow> (Inr (map (fake_output (map fst (running s))) (running s)), s\<lparr>running := []\<rparr>)
      | Raise msg # rest \<Rightarrow> (Inl msg, s\<lparr>script := rest\<rparr>)
      | Finish fin # rest \<Rightarrow>
          (Inr (map (fake_output fin) (running s)),
           s\<lparr>running := filter (\<lambda>r. fst r \<notin> set fin) (running s), script := rest\<rparr>))"

definition fake_engine :: "(fake_state, nat) engine" where
  "fake_engine =
     \<lparr> add_request = fake_add_request,
       step = fake_step,
       has_unfinished_requests = (\<lambda>s. running s \<noteq> []),
       get_num_unfinished_requests = (\<lambda>s. int (length (running s))) \<rparr>"

definition fresh_fake :: "fake_step list \<Rightarrow> fake_state LLM" where
  "fresh_fake sc = \<lparr>aphrodite = \<lparr>running = [], script = sc, refused = []\<rparr>, request_counter = Counter\<rparr>"

subsection \<open>The engine's contract\<close>

text \<open>
  The spec asks of the engine that every submitted request is eventually reported finished
  exactly once. For an engine \<open>E\<close> this is stated with three observations of its state: the
  states \<open>Inv\<close> in which the engine works as intended, the set \<open>unfinished e\<close> of identifiers
  submitted and not yet reported finished, and a bound \<open>fuel e\<close> on the steps still needed.
  \<^item> \<open>add_request\<close> of a request that has a prompt or token ids, under an identifier that
    is not unfinished, returns normally and adds the identifier; nothing is asked of the
    engine for a request with neither, which it may refuse;
  \<^item> \<open>has_unfinished_requests\<close> tells whether the set is empty;
  \<^item> a \<open>step\<close> with unfinished requests returns normally, reports as finished only
    unfinished identifiers, each at most once, takes exactly those out of the set, and
    lowers the bound.
\<close>

definition engine_contract ::
  "('e, 'sp) engine \<Rightarrow> ('e \<Rightarrow> bool) \<Rightarrow> ('e \<Rightarrow> string set) \<Rightarrow> ('e \<Rightarrow> nat) \<Rightarrow> bool" where
  "engine_contract E Inv unfinished fuel \<longleftrightarrow>
     (\<forall>e rid prompt sp toks.
        Inv e \<and> rid \<notin> unfinished e \<and> (prompt \<noteq> None \<or> toks \<noteq> None) \<longrightarrow>
        (\<exists>e'. add_request E rid prompt sp toks e = (Inr (), e') \<and> Inv e'
              \<and> unfinished e' = insert rid (unfinished e)))
     \<and> (\<forall>e. Inv e \<longrightarrow> has_unfinished_requests E e = (unfinished e \<noteq> {}))
     \<and> (\<forall>e. Inv e \<and> unfinished e \<noteq> {} \<longrightarrow>
          (\<exists>outs e'. step E e = (Inr outs, e') \<and> Inv e'
              \<and> distinct (map request_id (filter finished outs))
              \<and> set (map request_id (filter finished outs)) \<subseteq> unfinished e
              \<and> unfinished e' = unfinished e - set (map request_id (filter finished outs))
              \<and> fuel e' < fuel e))"

text \<open>The observations for the scripted engine: no raising entry left, distinct
  identifiers.\<close>

fun no_raise :: "fake_step \<Rightarrow> bool" where
  "no_raise (Finish fin) = True"
| "no_raise (Raise msg) = False"

definition fake_Inv :: "fake_state \<Rightarrow> bool" where
  "fake_Inv s \<longleftrightarrow> list_all no_raise (script s) \<and> refused s = [] \<and> distinct (map fst (running s))"

definition fake_unfinished :: "fake_state \<Rightarrow> string set" where
  "fake_unfinished s = set (map fst (running s))"

definition fake_fuel :: "fake_state \<Rightarrow> nat" where
  "fake_fuel s = length (script s) + length (running s)"

text \<open>A stricter scripted engine: it refuses a request that has neither a prompt nor token
  ids, and is the scripted engine otherwise.\<close>

definition strict_add_request ::
  "string \<Rightarrow> string option \<Rightarrow> nat \<Rightarrow> int list option \<Rightarrow> fake_state \<Rightarrow> (string + unit) \<times> fake_state" where
  "strict_add_request rid prompt sp toks s =
     (if prompt = None \<and> toks = None then (Inl ''empty request'', s)
      else fake_add_request rid prompt sp toks s)"

definition strict_engine :: "(fake_state, nat) engine" where
  "strict_engine = fake_engine\<lparr>add_request := strict_add_request\<rparr>"

subsection \<open>Consecutive calls\<close>

text \<open>A caller making one \<open>generate\<close> call after the other on the same instance, whatever
  each call returns or raises; the results are kept in order.\<close>

record 'sp generate_args =
  arg_prompts :: "prompts_arg option"
  arg_sampling_params :: "'sp option"
  arg_prompt_token_ids :: "int list list option"
  arg_use_tqdm :: bool

fun generate_calls ::
  "('e, 'sp) engine \<Rightarrow> 'sp \<Rightarrow> 'sp generate_args list \<Rightarrow> 'e LLM
     \<Rightarrow> ((error + RequestOutput list) list \<times> 'e LLM) option" where
  "generate_calls E d [] self = Some ([], self)"
| "generate_calls E d (a # as) self =
     (case LLM_generate E d (arg_prompts a) (arg_sampling_params a) (arg_prompt_token_ids a)
             (arg_use_tqdm a) self of
        None \<Rightarrow> None
      | Some (r, self', pbar) \<Rightarrow>
          (case generate_calls E d as self' of
             None \<Rightarrow> None
           | Some (rs, self'') \<Rightarrow> Some (r # rs, self'')))"

section \<open>Properties\<close>

subsection \<open>Request identifiers are injective\<close>

declare str.simps [simp del]

lemma digit_char_inj: "a < 10 \<Longrightarrow> b < 10 \<Longrightarrow> digit_char a = digit_char b \<Longrightarrow> a = b"
  unfolding digit_char_def
  by (simp add: char_of_eq_iff take_bit_eq_mod)

lemma str_small: "n < 10 \<Longrightarrow> str n = [digit_char n]"
  by (subst str.simps) simp

lemma str_large: "\<not> n < 10 \<Longrightarrow> str n = str (n div 10) @ [digit_char (n mod 10)]"
  by (subst str.simps) simp

lemma str_nonempty: "str n \<noteq> []"
  by (subst str.simps) simp

lemma str_inj: "str m = str n \<Longrightarrow> m = n"
proof (induction m arbitrary: n rule: str.induct)
  case (1 m)
  show ?case
  proof (cases "m < 10")
    case small_m: True
    show ?thesis
    proof (cases "n < 10")
      case True
      with small_m "1.prems" show ?thesis
        by (auto simp: str_small dest: digit_char_inj)
    next
      case False
      with small_m "1.prems" str_nonempty[of "n div 10"] show ?thesis
        by (cases "str (n div 10)") (auto simp: str_small str_large)
    qed
  next
    case large_m: False
    show ?thesis
    proof (cases "n < 10")
      case True
      with large_m "1.prems" str_nonempty[of "m div 10"] show ?thesis
        by (cases "str (m div 10)") (auto simp: str_small str_large)
    next
      case False
      with large_m "1.prems" have hi: "str (m div 10) = str (n div 10)"
        and lo: "digit_char (m mod 10) = digit_char (n mod 10)"
        by (auto simp: str_large)
      from "1.IH"[OF large_m hi] have "m div 10 = n div 10" .
      moreover from lo have "m mod 10 = n mod 10"
        by (auto dest!: digit_char_inj[rotated 2])
      ultimately show ?thesis by (metis div_mult_mod_eq)
    qed
  qed
qed

lemma inj_str: "inj str"
  by (rule injI) (rule str_inj)

subsection \<open>The poll loop and the engine's steps\<close>

lemma tqdm_updates_append:
  "tqdm_updates b (xs @ ys) = tqdm_updates b xs @ tqdm_updates b ys"
  by (simp add: tqdm_updates_def replicate_add)

lemma tqdm_updates_Nil: "tqdm_updates b [] = []"
  by (simp add: tqdm_updates_def)

lemma collect_eq:
  "collect b xs outs pb = (outs @ filter finished xs, pb @ tqdm_updates b xs)"
  by (induction xs arbitrary: outs pb) (auto simp: tqdm_updates_def replicate_append_same)

text \<open>After the steps of a run the loop is where it would be had it started there, with the
  finished outputs of those steps appended in order.\<close>

lemma poll_loop_polls:
  assumes "polls E e ss e0"
  shows "poll_loop E b e outs pb
           = poll_loop E b e0 (outs @ filter finished (concat ss)) (pb @ tqdm_updates b (concat ss))"
  using assms
proof (induction arbitrary: outs pb rule: polls.induct)
  case (polls_Nil e)
  show ?case by (simp add: tqdm_updates_Nil)
next
  case (polls_Cons e step_outputs e1 ss e')
  have "poll_loop E b e outs pb
          = poll_loop E b e1 (outs @ filter finished step_outputs) (pb @ tqdm_updates b step_outputs)"
    using polls_Cons.hyps(1,2) by (subst poll_loop.simps) (simp add: collect_eq)
  also have "\<dots> = poll_loop E b e' ((outs @ filter finished step_outputs) @ filter finished (concat ss))
                    ((pb @ tqdm_updates b step_outputs) @ tqdm_updates b (concat ss))"
    by (rule polls_Cons.IH)
  finally show ?case by (simp add: tqdm_updates_append)
qed

text \<open>A loop that returns has made a run of steps and then either found the engine without
  unfinished requests or seen a step raise.\<close>

lemma poll_loop_Some:
  assumes "poll_loop E b e outs pb = Some y"
  shows "\<exists>ss e0. polls E e ss e0
           \<and> ((\<not> has_unfinished_requests E e0
                \<and> y = (Inr (outs @ filter finished (concat ss)), e0, pb @ tqdm_updates b (concat ss)))
              \<or> (has_unfinished_requests E e0
                \<and> (\<exists>err e'. step E e0 = (Inl err, e')
                      \<and> y = (Inl err, e', pb @ tqdm_updates b (concat ss)))))"
proof -
  let ?P = "\<lambda>E b e outs pb y. \<exists>ss e0. polls E e ss e0
           \<and> ((\<not> has_unfinished_requests E e0
                \<and> y = (Inr (outs @ filter finished (concat ss)), e0, pb @ tqdm_updates b (concat ss)))
              \<or> (has_unfinished_requests E e0
                \<and> (\<exists>err e'. step E e0 = (Inl err, e')
                      \<and> y = (Inl err, e', pb @ tqdm_updates b (concat ss)))))"
  show ?thesis
  proof (rule poll_loop.raw_induct[where P = ?P, OF _ assms])
    fix poll :: "('a, 'b) engine \<Rightarrow> bool \<Rightarrow> 'a \<Rightarrow> RequestOutput list \<Rightarrow> tqdm_call list
                  \<Rightarrow> ((string + RequestOutput list) \<times> 'a \<times> tqdm_call list) option"
      and E b e outs pb y
    assume IH: "\<And>E b e outs pb y. poll E b e outs pb = Some y \<Longrightarrow> ?P E b e outs pb y"
      and body: "(if has_unfinished_requests E e
           then case step E e of (Inl err, e') \<Rightarrow> Some (Inl err, e', pb)
                | (Inr step_outputs, e') \<Rightarrow>
                    (case collect b step_outputs outs pb of
                       (outputs', pbar') \<Rightarrow> poll E b e' outputs' pbar')
           else Some (Inr outs, e, pb)) = Some y"
    show "?P E b e outs pb y"
    proof (cases "has_unfinished_requests E e")
      case False
      with body have "y = (Inr outs, e, pb)" by simp
      with False polls_Nil[of E e] show ?thesis
        by (intro exI[of _ "[]"] exI[of _ e]) (simp add: tqdm_updates_Nil)
    next
      case True
      obtain r e1 where st: "step E e = (r, e1)" by (cases "step E e")
      show ?thesis
      proof (cases r)
        case (Inl err)
        with body True st have "y = (Inl err, e1, pb)" by simp
        with True st Inl polls_Nil[of E e] show ?thesis
          by (intro exI[of _ "[]"] exI[of _ e]) (simp add: tqdm_updates_Nil)
      next
        case (Inr so)
        with body True st
        have "poll E b e1 (outs @ filter finished so) (pb @ tqdm_updates b so) = Some y"
          by (simp add: collect_eq)
        from IH[OF this] obtain ss e0 where p: "polls E e1 ss e0"
          and d: "(\<not> has_unfinished_requests E e0
                  \<and> y = (Inr ((outs @ filter finished so) @ filter finished (concat ss)), e0,
                          (pb @ tqdm_updates b so) @ tqdm_updates b (concat ss)))
                \<or> (has_unfinished_requests E e0
                  \<and> (\<exists>err e'. step E e0 = (Inl err, e')
                        \<and> y = (Inl err, e', (pb @ tqdm_updates b so) @ tqdm_updates b (concat ss))))"
          by blast
        from True st Inr p have "polls E e (so # ss) e0" by (auto intro: polls_Cons)
        with d show ?thesis
          by (intro exI[of _ "so # ss"] exI[of _ e0]) (simp add: tqdm_updates_append)
      qed
    qed
  qed
qed

subsection \<open>Submission\<close>

lemma LLM_add_request_cases:
  "LLM_add_request E prompt sp toks self = (r, self') \<Longrightarrow>
     (r = Inr () \<or> (\<exists>err. r = Inl (EngineFailure err)))
     \<and> request_counter self' = request_counter self + 1"
  by (auto simp: LLM_add_request_def Counter_next_def Let_def split: prod.splits sum.splits)

lemma submit_one_error:
  "submit_one E prompts sp toks i self = (Inl err, self') \<Longrightarrow>
     err = IndexError \<or> (\<exists>m. err = EngineFailure m)"
  by (auto simp: submit_one_def subscript_def split: option.splits if_splits dest: LLM_add_request_cases)

lemma submit_loop_error:
  "submit_loop E prompts sp toks is self = (Inl err, self') \<Longrightarrow>
     err = IndexError \<or> (\<exists>m. err = EngineFailure m)"
proof (induction "is" arbitrary: self)
  case Nil
  then show ?case by simp
next
  case (Cons i "is")
  obtain r s1 where one: "submit_one E prompts sp toks i self = (r, s1)"
    by (cases "submit_one E prompts sp toks i self")
  show ?case
  proof (cases r)
    case (Inl e)
    with Cons.prems one show ?thesis by (auto dest: submit_one_error)
  next
    case (Inr u)
    with Cons.prems one show ?thesis by (auto dest: Cons.IH)
  qed
qed

lemma submit_phase_invalid:
  "invalid_arguments prompts toks \<Longrightarrow>
     \<exists>msg. submit_phase E d prompts sp toks self = (Inl (ValueError msg), self)"
  by (cases "(prompts, toks)" rule: invalid_arguments.cases)
     (auto simp: submit_phase_def split: prompts_arg.splits)

text \<open>With valid arguments the first part of \<open>generate\<close> is the submission loop over the
  indices of the batch.\<close>

lemma submit_phase_valid:
  "\<not> invalid_arguments prompts toks \<Longrightarrow>
     submit_phase E d prompts sp toks self
       = submit_loop E (map_option batch_of prompts) (params_or_default d sp) toks
           [0..<(case prompts of Some p \<Rightarrow> length (batch_of p) | None \<Rightarrow> length (the toks))] self"
  by (cases "(prompts, toks)" rule: invalid_arguments.cases; cases sp)
     (auto simp: submit_phase_def Let_def split: prompts_arg.splits simp del: submit_loop.simps)

lemma submit_phase_empty_batch:
  "submit_phase E d (Some (Batch [])) sp None self = (Inr (), self)"
  by (simp add: submit_phase_def)

lemma LLM_run_engine_error:
  "LLM_run_engine E b self = Some (Inl err, self', pbar) \<Longrightarrow> \<exists>m. err = EngineFailure m"
  by (auto simp: LLM_run_engine_def Let_def split: option.splits sum.splits if_splits)

lemma LLM_run_engine_counter:
  "LLM_run_engine E b self = Some (r, self', pbar) \<Longrightarrow> request_counter self' = request_counter self"
  by (auto simp: LLM_run_engine_def Let_def split: option.splits sum.splits if_splits)

lemma LLM_run_engine_idle:
  "\<not> has_unfinished_requests E (aphrodite self) \<Longrightarrow>
     LLM_run_engine E b self
       = Some (Inr [], self,
               if b then [Tqdm_new (get_num_unfinished_requests E (aphrodite self)), Tqdm_close] else [])"
  by (simp add: LLM_run_engine_def poll_loop.simps)

subsection \<open>Argument checks\<close>

text \<open>
  C2. \<open>generate\<close> raises the driver's \<open>ValueError\<close> (the spec's \<open>InvalidArgument\<close>) exactly
  when both \<open>prompts\<close> and \<open>prompt_token_ids\<close> are absent, or both are given and, a bare
  string counting as a batch of one, their lengths differ. In each such case the error is
  raised at once: the instance, and with it the engine state and the counter, is returned
  as it was, and no call of the progress bar is made. For an engine whose calls are
  recorded, the log is unchanged as well: no \<open>add_request\<close> was made.
\<close>

theorem generate_ValueError_iff_invalid_arguments:
  "((\<exists>msg self' pbar. LLM_generate E d prompts sp toks b self = Some (Inl (ValueError msg), self', pbar))
      \<longleftrightarrow> invalid_arguments prompts toks)
   \<and> (invalid_arguments prompts toks \<longrightarrow>
        (\<exists>msg. LLM_generate E d prompts sp toks b self = Some (Inl (ValueError msg), self, []))
        \<and> (\<forall>e log c. \<exists>msg.
             LLM_generate (recording E) d prompts sp toks b \<lparr>aphrodite = (e, log), request_counter = c\<rparr>
               = Some (Inl (ValueError msg), \<lparr>aphrodite = (e, log), request_counter = c\<rparr>, [])))"
proof -
  have bad: "\<exists>msg. LLM_generate E' d prompts sp toks b s = Some (Inl (ValueError msg), s, [])"
    if "invalid_arguments prompts toks" for E' :: "('x, 'b) engine" and s
    using submit_phase_invalid[OF that, of E' d sp s] by (auto simp: LLM_generate_def)
  have good: "LLM_generate E d prompts sp toks b self \<noteq> Some (Inl (ValueError msg), self', pbar)"
    if valid: "\<not> invalid_arguments prompts toks" for msg self' pbar
  proof
    assume g: "LLM_generate E d prompts sp toks b self = Some (Inl (ValueError msg), self', pbar)"
    obtain r s1 where ph: "submit_phase E d prompts sp toks self = (r, s1)"
      by (cases "submit_phase E d prompts sp toks self")
    show False
    proof (cases r)
      case (Inl err)
      with g ph have "err = ValueError msg" by (simp add: LLM_generate_def)
      with Inl ph submit_phase_valid[OF valid, of E d sp self] show False
        by (auto dest: submit_loop_error)
    next
      case (Inr u)
      with g ph have "LLM_run_engine E b s1 = Some (Inl (ValueError msg), self', pbar)"
        by (simp add: LLM_generate_def)
      then show False by (auto dest: LLM_run_engine_error)
    qed
  qed
  show ?thesis using bad[of E self] bad[of "recording E"] good by blast
qed

text \<open>The spec's scenario: two prompts with three lists of token ids, on a recorded
  scripted engine. The log stays empty.\<close>

theorem generate_ValueError_iff_invalid_arguments_witness:
  "invalid_arguments (Some (Batch [''x'', ''y''])) (Some [[1], [2], [3]])
   \<and> (\<exists>msg. LLM_generate (recording fake_engine) 0 (Some (Batch [''x'', ''y''])) None
               (Some [[1], [2], [3]]) True
               \<lparr>aphrodite = (aphrodite (fresh_fake []), []), request_counter = Counter\<rparr>
             = Some (Inl (ValueError msg),
                     \<lparr>aphrodite = (aphrodite (fresh_fake []), []), request_counter = Counter\<rparr>, []))"
  using generate_ValueError_iff_invalid_arguments
          [where E = fake_engine and d = 0 and prompts = "Some (Batch [''x'', ''y''])" and sp = None
             and toks = "Some [[1], [2], [3]]" and b = True]
  by simp

text \<open>
  C5. A bare prompt string behaves as the list holding that one string: for every engine,
  every other argument and every instance the two calls give the same outcome, the same
  final instance (hence the same engine state, and for a recorded engine the same calls)
  and the same progress-bar calls; neither returns exactly when the other does not.
\<close>

theorem generate_bare_string_is_singleton_batch:
  "LLM_generate E d (Some (Bare s)) sp toks b self
     = LLM_generate E d (Some (Batch [s])) sp toks b self"
  by (simp add: LLM_generate_def submit_phase_def)

text \<open>
  C10. For the empty list of prompts and no token ids the submission part returns normally
  with the instance unchanged (nothing is submitted, the counter stays), so \<open>generate\<close> is
  \<open>_run_engine\<close> on the unchanged instance. It never raises \<open>ValueError\<close>; whatever it
  returns, the counter is the one before the call; and when the engine has no unfinished
  requests it returns the empty list, leaving the instance as it was.
\<close>

theorem generate_empty_batch:
  "submit_phase E d (Some (Batch [])) sp None self = (Inr (), self)
   \<and> LLM_generate E d (Some (Batch [])) sp None b self = LLM_run_engine E b self
   \<and> (\<forall>msg self' pbar.
         LLM_generate E d (Some (Batch [])) sp None b self \<noteq> Some (Inl (ValueError msg), self', pbar))
   \<and> (\<forall>r self' pbar.
         LLM_generate E d (Some (Batch [])) sp None b self = Some (r, self', pbar)
           \<longrightarrow> request_counter self' = request_counter self)
   \<and> (\<not> has_unfinished_requests E (aphrodite self) \<longrightarrow>
         LLM_generate E d (Some (Batch [])) sp None b self
           = Some (Inr [], self,
                   if b then [Tqdm_new (get_num_unfinished_requests E (aphrodite self)), Tqdm_close]
                   else []))"
proof -
  have g: "LLM_generate E d (Some (Batch [])) sp None b self = LLM_run_engine E b self"
    by (simp add: LLM_generate_def submit_phase_empty_batch)
  show ?thesis
    unfolding g
    by (auto simp: submit_phase_empty_batch LLM_run_engine_idle
             dest: LLM_run_engine_error LLM_run_engine_counter)
qed

text \<open>An idle recorded engine and a counter at 7: the empty list comes back, the log is
  still empty and the counter still 7.\<close>

theorem generate_empty_batch_witness:
  "\<not> has_unfinished_requests (recording fake_engine) (aphrodite (fresh_fake []), [])
   \<and> LLM_generate (recording fake_engine) 0 (Some (Batch [])) None None True
        \<lparr>aphrodite = (aphrodite (fresh_fake []), []), request_counter = 7\<rparr>
       = Some (Inr [], \<lparr>aphrodite = (aphrodite (fresh_fake []), []), request_counter = 7\<rparr>,
               [Tqdm_new 0, Tqdm_close])"
proof -
  have idle: "\<not> has_unfinished_requests (recording fake_engine) (aphrodite (fresh_fake []), [])"
    by (simp add: recording_def fake_engine_def fresh_fake_def)
  have num: "get_num_unfinished_requests (recording fake_engine) (aphrodite (fresh_fake []), []) = 0"
    by (simp add: recording_def fake_engine_def fresh_fake_def)
  from idle num generate_empty_batch
          [where E = "recording fake_engine" and d = 0 and sp = None and b = True
             and self = "\<lparr>aphrodite = (aphrodite (fresh_fake []), []), request_counter = 7\<rparr>",
           THEN conjunct2, THEN conjunct2, THEN conjunct2, THEN conjunct2]
  show ?thesis by simp
qed

subsection \<open>Concrete engines\<close>

lemma fake_engine_simps:
  "add_request fake_engine = fake_add_request"
  "step fake_engine = fake_step"
  "has_unfinished_requests fake_engine s = (running s \<noteq> [])"
  "get_num_unfinished_requests fake_engine s = int (length (running s))"
  by (simp_all add: fake_engine_def)

lemma recording_simps:
  "add_request (recording E) rid prompt sp toks (e, log)
     = (case add_request E rid prompt sp toks e of
          (r, e') \<Rightarrow> (r, (e', log @ [Call_add_request rid prompt sp toks])))"
  "step (recording E) (e, log) = (case step E e of (r, e') \<Rightarrow> (r, (e', log @ [Call_step])))"
  "has_unfinished_requests (recording E) (e, log) = has_unfinished_requests E e"
  "get_num_unfinished_requests (recording E) (e, log) = get_num_unfinished_requests E e"
  by (simp_all add: recording_def)

lemmas fake_defs = fake_engine_simps fake_add_request_def fake_step_def fake_output_def

lemma abc_submit:
  "submit_phase fake_engine 16 (Some (Batch [''a'', ''b'', ''c''])) None None
     (fresh_fake [Finish [''1''], Finish [''0'', ''2'']])
   = (Inr (), \<lparr>aphrodite = \<lparr>running = [(''0'', ''a''), (''1'', ''b''), (''2'', ''c'')],
                  script = [Finish [''1''], Finish [''0'', ''2'']], refused = []\<rparr>,
               request_counter = 3\<rparr>)"
  by code_simp

lemma abc_poll:
  "poll_loop fake_engine b \<lparr>running = [(''0'', ''a''), (''1'', ''b''), (''2'', ''c'')],
                  script = [Finish [''1''], Finish [''0'', ''2'']], refused = []\<rparr> [] pb
   = Some (Inr [\<lparr>request_id = ''1'', finished = True, payload = ''b''\<rparr>,
                \<lparr>request_id = ''0'', finished = True, payload = ''a''\<rparr>,
                \<lparr>request_id = ''2'', finished = True, payload = ''c''\<rparr>],
           \<lparr>running = [], script = [], refused = []\<rparr>,
           pb @ (if b then [Tqdm_update 1, Tqdm_update 1, Tqdm_update 1] else []))"
  by (simp add: poll_loop.simps fake_defs collect_eq tqdm_updates_def)

lemma scenario_abc:
  "LLM_generate fake_engine 16 (Some (Batch [''a'', ''b'', ''c''])) None None True
     (fresh_fake [Finish [''1''], Finish [''0'', ''2'']])
   = Some (Inr [\<lparr>request_id = ''1'', finished = True, payload = ''b''\<rparr>,
                \<lparr>request_id = ''0'', finished = True, payload = ''a''\<rparr>,
                \<lparr>request_id = ''2'', finished = True, payload = ''c''\<rparr>],
           \<lparr>aphrodite = \<lparr>running = [], script = [], refused = []\<rparr>, request_counter = 3\<rparr>,
           [Tqdm_new 3, Tqdm_update 1, Tqdm_update 1, Tqdm_update 1, Tqdm_close])"
  by (simp add: LLM_generate_def abc_submit LLM_run_engine_def abc_poll fake_engine_simps)

subsection \<open>Results of the poll loop\<close>

text \<open>What a run ends in decides the loop's result.\<close>

lemma poll_loop_finish:
  assumes "polls E e ss e0" "\<not> has_unfinished_requests E e0"
  shows "poll_loop E b e outs pb
           = Some (Inr (outs @ filter finished (concat ss)), e0, pb @ tqdm_updates b (concat ss))"
  by (subst poll_loop_polls[OF assms(1)], subst poll_loop.simps) (simp add: assms(2))

lemma poll_loop_raise:
  assumes "polls E e ss e0" "has_unfinished_requests E e0" "step E e0 = (Inl err, e')"
  shows "poll_loop E b e outs pb = Some (Inl err, e', pb @ tqdm_updates b (concat ss))"
  by (subst poll_loop_polls[OF assms(1)], subst poll_loop.simps) (simp add: assms(2,3))

lemma poll_loop_Some_any_tqdm:
  assumes "poll_loop E b e outs pb = Some (r, e', p)"
  shows "\<exists>p'. poll_loop E b' e outs pb' = Some (r, e', p')"
proof -
  from poll_loop_Some[OF assms] obtain ss e0 where run: "polls E e ss e0"
    and d: "(\<not> has_unfinished_requests E e0
                \<and> (r, e', p) = (Inr (outs @ filter finished (concat ss)), e0, pb @ tqdm_updates b (concat ss)))
              \<or> (has_unfinished_requests E e0
                \<and> (\<exists>err e''. step E e0 = (Inl err, e'')
                      \<and> (r, e', p) = (Inl err, e'', pb @ tqdm_updates b (concat ss))))"
    by blast
  from d show ?thesis
  proof
    assume "\<not> has_unfinished_requests E e0
                \<and> (r, e', p) = (Inr (outs @ filter finished (concat ss)), e0, pb @ tqdm_updates b (concat ss))"
    with poll_loop_finish[OF run, of b' outs pb'] show ?thesis by simp
  next
    assume "has_unfinished_requests E e0
                \<and> (\<exists>err e''. step E e0 = (Inl err, e'')
                      \<and> (r, e', p) = (Inl err, e'', pb @ tqdm_updates b (concat ss)))"
    then obtain err e'' where "has_unfinished_requests E e0" "step E e0 = (Inl err, e'')"
      "r = Inl err" "e' = e''" by auto
    with poll_loop_raise[OF run, of err e'' b' outs pb'] show ?thesis by simp
  qed
qed

lemma poll_loop_tqdm_irrelevant:
  "map_option without_pbar (poll_loop E b e outs pb)
     = map_option without_pbar (poll_loop E b' e outs pb')"
proof (cases "poll_loop E b e outs pb")
  case None
  have "poll_loop E b' e outs pb' = None"
  proof (rule ccontr)
    assume "poll_loop E b' e outs pb' \<noteq> None"
    then obtain r e' p where "poll_loop E b' e outs pb' = Some (r, e', p)" by auto
    from poll_loop_Some_any_tqdm[OF this, of b pb] None show False by simp
  qed
  with None show ?thesis by simp
next
  case (Some y)
  obtain r e' p where y: "y = (r, e', p)" by (cases y)
  from poll_loop_Some_any_tqdm[of E b e outs pb r e' p b' pb'] Some y
  show ?thesis by (auto simp: without_pbar_def)
qed

lemma LLM_run_engine_tqdm_irrelevant:
  "map_option without_pbar (LLM_run_engine E True self)
     = map_option without_pbar (LLM_run_engine E False self)"
proof -
  let ?t = "poll_loop E True (aphrodite self) [] [Tqdm_new (get_num_unfinished_requests E (aphrodite self))]"
  let ?f = "poll_loop E False (aphrodite self) [] []"
  have eq: "map_option without_pbar ?t = map_option without_pbar ?f"
    by (rule poll_loop_tqdm_irrelevant)
  show ?thesis
  proof (cases ?t)
    case None
    with eq have "?f = None" by simp
    with None show ?thesis by (simp add: LLM_run_engine_def)
  next
    case (Some y)
    with eq obtain y' where f: "?f = Some y'" and w: "without_pbar y = without_pbar y'"
      by (cases ?f) auto
    obtain r e' p where y: "y = (r, e', p)" by (cases y)
    obtain r' e'' p' where y': "y' = (r', e'', p')" by (cases y')
    from w y y' have "r' = r" "e'' = e'" by (simp_all add: without_pbar_def)
    with Some f y y' show ?thesis
      by (cases r) (simp_all add: LLM_run_engine_def without_pbar_def)
  qed
qed

text \<open>
  C8. The progress bar only observes. For every engine, all arguments and every instance,
  the call with the bar and the call without it agree on whether they return, on the
  outcome (the list, or the error) and on the final instance, hence on the engine state.
  For an engine whose calls are recorded the final state holds the log, so both runs make
  the same \<open>add_request\<close> and \<open>step\<close> calls in the same order.
\<close>

theorem progress_reporting_is_observational:
  "map_option without_pbar (LLM_generate E d prompts sp toks True self)
     = map_option without_pbar (LLM_generate E d prompts sp toks False self)
   \<and> map_option without_pbar
        (LLM_generate (recording E) d prompts sp toks True \<lparr>aphrodite = (e, log), request_counter = c\<rparr>)
     = map_option without_pbar
        (LLM_generate (recording E) d prompts sp toks False \<lparr>aphrodite = (e, log), request_counter = c\<rparr>)"
proof -
  have "map_option without_pbar (LLM_generate E' d prompts sp toks True s)
     = map_option without_pbar (LLM_generate E' d prompts sp toks False s)"
    for E' :: "('x, 'b) engine" and s
  proof -
    obtain r s1 where ph: "submit_phase E' d prompts sp toks s = (r, s1)"
      by (cases "submit_phase E' d prompts sp toks s")
    show ?thesis
      by (cases r) (simp_all add: LLM_generate_def ph LLM_run_engine_tqdm_irrelevant without_pbar_def)
  qed
  from this[of E self] this[of "recording E"] show ?thesis by simp
qed

lemma LLM_run_engine_Inr:
  assumes "LLM_run_engine E b self = Some (Inr outs, self', pbar)"
  shows "\<exists>ss. polls E (aphrodite self) ss (aphrodite self')
           \<and> \<not> has_unfinished_requests E (aphrodite self')
           \<and> self' = self\<lparr>aphrodite := aphrodite self'\<rparr>
           \<and> outs = filter finished (concat ss)
           \<and> pbar = (if b then Tqdm_new (get_num_unfinished_requests E (aphrodite self))
                               # replicate (length outs) (Tqdm_update 1) @ [Tqdm_close]
                      else [])"
proof -
  let ?pb = "if b then [Tqdm_new (get_num_unfinished_requests E (aphrodite self))] else []"
  from assms obtain e' p where pl: "poll_loop E b (aphrodite self) [] ?pb = Some (Inr outs, e', p)"
    and s': "self' = self\<lparr>aphrodite := e'\<rparr>" and pbar: "pbar = (if b then p @ [Tqdm_close] else p)"
    by (auto simp: LLM_run_engine_def Let_def split: option.splits sum.splits if_splits)
  from poll_loop_Some[OF pl] obtain ss where run: "polls E (aphrodite self) ss e'"
    and idle: "\<not> has_unfinished_requests E e'"
    and outs: "outs = filter finished (concat ss)" and p: "p = ?pb @ tqdm_updates b (concat ss)"
    by auto
  from run idle outs p pbar s' show ?thesis
    by (intro exI[of _ ss]) (auto simp: tqdm_updates_def)
qed

lemma LLM_generate_Inr:
  assumes "LLM_generate E d prompts sp toks b self = Some (Inr outs, self', pbar)"
  shows "\<exists>s1. submit_phase E d prompts sp toks self = (Inr (), s1)
            \<and> LLM_run_engine E b s1 = Some (Inr outs, self', pbar)"
  using assms by (auto simp: LLM_generate_def split: prod.splits sum.splits)

text \<open>
  C1. When \<open>generate\<close> returns normally, the engine has made a run of steps from the state
  the submissions left it in to a state without unfinished requests, and the returned list
  is exactly the outputs those steps reported as finished: step by step in the order of the
  steps, and within a step in the order the engine reported them. This is the order of
  completion, whatever the order of submission was. Every returned output is marked
  finished.
\<close>

theorem generate_returns_in_completion_order:
  assumes "LLM_generate E d prompts sp toks b self = Some (Inr outs, self', pbar)"
  shows "\<exists>ss. polls E (aphrodite (snd (submit_phase E d prompts sp toks self))) ss (aphrodite self')
           \<and> \<not> has_unfinished_requests E (aphrodite self')
           \<and> outs = filter finished (concat ss)
           \<and> list_all finished outs"
proof -
  from LLM_generate_Inr[OF assms] obtain s1
    where ph: "submit_phase E d prompts sp toks self = (Inr (), s1)"
      and re: "LLM_run_engine E b s1 = Some (Inr outs, self', pbar)" by blast
  from LLM_run_engine_Inr[OF re] ph show ?thesis
    by (auto simp: list_all_iff)
qed

text \<open>The spec's scenario: prompts a, b, c get the identifiers 0, 1, 2; the engine finishes
  b in its first step and a and c in its second. The result lists b, a, c.\<close>

theorem generate_returns_in_completion_order_witness:
  "LLM_generate fake_engine 16 (Some (Batch [''a'', ''b'', ''c''])) None None True
     (fresh_fake [Finish [''1''], Finish [''0'', ''2'']])
   = Some (Inr [\<lparr>request_id = ''1'', finished = True, payload = ''b''\<rparr>,
                \<lparr>request_id = ''0'', finished = True, payload = ''a''\<rparr>,
                \<lparr>request_id = ''2'', finished = True, payload = ''c''\<rparr>],
           \<lparr>aphrodite = \<lparr>running = [], script = [], refused = []\<rparr>, request_counter = 3\<rparr>,
           [Tqdm_new 3, Tqdm_update 1, Tqdm_update 1, Tqdm_update 1, Tqdm_close])
   \<and> (\<exists>ss. polls fake_engine
              \<lparr>running = [(''0'', ''a''), (''1'', ''b''), (''2'', ''c'')],
                script = [Finish [''1''], Finish [''0'', ''2'']], refused = []\<rparr>
              ss \<lparr>running = [], script = [], refused = []\<rparr>
          \<and> [\<lparr>request_id = ''1'', finished = True, payload = ''b''\<rparr>,
              \<lparr>request_id = ''0'', finished = True, payload = ''a''\<rparr>,
              \<lparr>request_id = ''2'', finished = True, payload = ''c''\<rparr>] = filter finished (concat ss))"
proof -
  from generate_returns_in_completion_order[OF scenario_abc]
  have "\<exists>ss. polls fake_engine
              \<lparr>running = [(''0'', ''a''), (''1'', ''b''), (''2'', ''c'')],
                script = [Finish [''1''], Finish [''0'', ''2'']], refused = []\<rparr>
              ss \<lparr>running = [], script = [], refused = []\<rparr>
          \<and> [\<lparr>request_id = ''1'', finished = True, payload = ''b''\<rparr>,
              \<lparr>request_id = ''0'', finished = True, payload = ''a''\<rparr>,
              \<lparr>request_id = ''2'', finished = True, payload = ''c''\<rparr>] = filter finished (concat ss)"
    by (auto simp: abc_submit)
  with scenario_abc show ?thesis by (rule conjI)
qed

text \<open>
  C7. With the progress bar enabled, a call that returns normally has made these calls on
  the bar and no others: its construction with the number of unfinished requests that the
  engine reports when the loop starts, that is, in the state the submissions left it in;
  one \<open>update(1)\<close> for each output of the returned list; and one \<open>close\<close>, at the end.
\<close>

theorem progress_bar_calls:
  assumes "LLM_generate E d prompts sp toks True self = Some (Inr outs, self', pbar)"
  shows "pbar = Tqdm_new (get_num_unfinished_requests E
                            (aphrodite (snd (submit_phase E d prompts sp toks self))))
                # replicate (length outs) (Tqdm_update 1) @ [Tqdm_close]"
proof -
  from LLM_generate_Inr[OF assms] obtain s1
    where ph: "submit_phase E d prompts sp toks self = (Inr (), s1)"
      and re: "LLM_run_engine E True s1 = Some (Inr outs, self', pbar)" by blast
  from LLM_run_engine_Inr[OF re] ph show ?thesis by auto
qed

lemma pre_submit:
  "submit_phase fake_engine 16 (Some (Batch [''new''])) None None
     \<lparr>aphrodite = \<lparr>running = [(''3'', ''old'')], script = [Finish [''4'']], refused = []\<rparr>,
       request_counter = 4\<rparr>
   = (Inr (), \<lparr>aphrodite = \<lparr>running = [(''3'', ''old''), (''4'', ''new'')],
                               script = [Finish [''4'']], refused = []\<rparr>,
               request_counter = 5\<rparr>)"
  by code_simp

lemma pre_poll:
  "poll_loop fake_engine True \<lparr>running = [(''3'', ''old''), (''4'', ''new'')],
                               script = [Finish [''4'']], refused = []\<rparr> [] pb
   = Some (Inr [\<lparr>request_id = ''4'', finished = True, payload = ''new''\<rparr>,
                \<lparr>request_id = ''3'', finished = True, payload = ''old''\<rparr>],
           \<lparr>running = [], script = [], refused = []\<rparr>,
           pb @ [Tqdm_update 1, Tqdm_update 1])"
  by (simp add: poll_loop.simps fake_defs collect_eq tqdm_updates_def)

lemma scenario_preexisting:
  "LLM_generate fake_engine 16 (Some (Batch [''new''])) None None True
     \<lparr>aphrodite = \<lparr>running = [(''3'', ''old'')], script = [Finish [''4'']], refused = []\<rparr>,
       request_counter = 4\<rparr>
   = Some (Inr [\<lparr>request_id = ''4'', finished = True, payload = ''new''\<rparr>,
                \<lparr>request_id = ''3'', finished = True, payload = ''old''\<rparr>],
           \<lparr>aphrodite = \<lparr>running = [], script = [], refused = []\<rparr>, request_counter = 5\<rparr>,
           [Tqdm_new 2, Tqdm_update 1, Tqdm_update 1, Tqdm_close])"
  by (simp add: LLM_generate_def pre_submit LLM_run_engine_def pre_poll fake_engine_simps)

text \<open>An engine that still holds a request of an earlier call: the total is 2 for a batch
  of one, and two updates are made.\<close>

theorem progress_bar_calls_witness:
  "LLM_generate fake_engine 16 (Some (Batch [''new''])) None None True
     \<lparr>aphrodite = \<lparr>running = [(''3'', ''old'')], script = [Finish [''4'']], refused = []\<rparr>,
       request_counter = 4\<rparr>
   = Some (Inr [\<lparr>request_id = ''4'', finished = True, payload = ''new''\<rparr>,
                \<lparr>request_id = ''3'', finished = True, payload = ''old''\<rparr>],
           \<lparr>aphrodite = \<lparr>running = [], script = [], refused = []\<rparr>, request_counter = 5\<rparr>,
           [Tqdm_new 2, Tqdm_update 1, Tqdm_update 1, Tqdm_close])
   \<and> [Tqdm_new 2, Tqdm_update 1, Tqdm_update 1, Tqdm_close]
       = Tqdm_new (get_num_unfinished_requests fake_engine
                     \<lparr>running = [(''3'', ''old''), (''4'', ''new'')],
                       script = [Finish [''4'']], refused = []\<rparr>)
         # replicate (length [\<lparr>request_id = ''4'', finished = True, payload = ''new''\<rparr>,
                              \<lparr>request_id = ''3'', finished = True, payload = ''old''\<rparr>])
             (Tqdm_update 1) @ [Tqdm_close]"
  using progress_bar_calls[OF scenario_preexisting] scenario_preexisting
  by (simp add: pre_submit)

lemma submit_loop_append:
  "submit_loop E ps sp ts (xs @ ys) self
     = (case submit_loop E ps sp ts xs self of
          (Inl err, s) \<Rightarrow> (Inl err, s)
        | (Inr u, s) \<Rightarrow> submit_loop E ps sp ts ys s)"
  by (induction xs arbitrary: self) (auto split: prod.splits sum.splits)

lemma LLM_add_request_raise:
  "add_request E (str (request_counter self)) prompt sp tk (aphrodite self) = (Inl m, e') \<Longrightarrow>
     LLM_add_request E prompt sp tk self
       = (Inl (EngineFailure m), \<lparr>aphrodite = e', request_counter = request_counter self + 1\<rparr>)"
  by (simp add: LLM_add_request_def Counter_next_def)

lemma submit_one_valid:
  assumes "\<not> invalid_arguments prompts toks" "k < num_requests prompts toks"
  shows "submit_one E (map_option batch_of prompts) sp' toks k s
           = LLM_add_request E (fst (nth_request prompts toks k)) sp' (snd (nth_request prompts toks k)) s"
  using assms
  by (cases "(prompts, toks)" rule: invalid_arguments.cases)
     (auto simp: submit_one_def subscript_def nth_request_def num_requests_def)

lemma num_requests_valid:
  "\<not> invalid_arguments prompts toks \<Longrightarrow>
     (case prompts of Some p \<Rightarrow> length (batch_of p) | None \<Rightarrow> length (the toks))
       = num_requests prompts toks"
  by (cases "(prompts, toks)" rule: invalid_arguments.cases) (auto simp: num_requests_def)

text \<open>
  C9. An error raised by the engine leaves \<open>generate\<close> as it is, with no result list.
  \<^item> During submission: when the arguments are valid, the first \<open>k\<close> requests were handed
    over normally and the engine raises \<open>m\<close> on request \<open>k\<close>, the call ends with the engine's
    \<open>m\<close> in the state that the raising \<open>add_request\<close> left: no later request is submitted
    and the loop is not entered.
  \<^item> During polling: when submission succeeded, the engine made any run \<open>ss\<close> of steps and
    then raises \<open>m\<close> in a step, the call ends with the engine's \<open>m\<close> in the state that step
    left; the finished outputs of \<open>ss\<close>, collected so far, are not returned, and the
    progress bar is not closed.
\<close>

theorem engine_failure_propagates:
  "(\<not> invalid_arguments prompts toks \<and> k < num_requests prompts toks
      \<and> submit_loop E (map_option batch_of prompts) (params_or_default d sp) toks [0..<k] self
           = (Inr (), s1)
      \<and> add_request E (str (request_counter s1)) (fst (nth_request prompts toks k))
           (params_or_default d sp) (snd (nth_request prompts toks k)) (aphrodite s1) = (Inl m, e')
      \<longrightarrow> LLM_generate E d prompts sp toks b self
            = Some (Inl (EngineFailure m), \<lparr>aphrodite = e', request_counter = request_counter s1 + 1\<rparr>, []))
   \<and> (submit_phase E d prompts sp toks self = (Inr (), s2)
      \<and> polls E (aphrodite s2) ss e \<and> has_unfinished_requests E e \<and> step E e = (Inl m, e')
      \<longrightarrow> LLM_generate E d prompts sp toks b self
            = Some (Inl (EngineFailure m), s2\<lparr>aphrodite := e'\<rparr>,
                    if b then Tqdm_new (get_num_unfinished_requests E (aphrodite s2))
                              # replicate (length (filter finished (concat ss))) (Tqdm_update 1)
                    else []))"
proof (intro conjI impI)
  assume a: "\<not> invalid_arguments prompts toks \<and> k < num_requests prompts toks
      \<and> submit_loop E (map_option batch_of prompts) (params_or_default d sp) toks [0..<k] self
           = (Inr (), s1)
      \<and> add_request E (str (request_counter s1)) (fst (nth_request prompts toks k))
           (params_or_default d sp) (snd (nth_request prompts toks k)) (aphrodite s1) = (Inl m, e')"
  let ?n = "num_requests prompts toks"
  from a have k: "k < ?n" by simp
  have split: "[0..<?n] = [0..<k] @ k # [Suc k..<?n]"
  proof -
    from k have "[0..<?n] = [0..<k + (?n - k)]" by simp
    also have "\<dots> = [0..<k] @ [k..<k + (?n - k)]" by (rule upt_add_eq_append) simp
    also from k have "[k..<k + (?n - k)] = k # [Suc k..<?n]" by (simp add: upt_conv_Cons)
    finally show ?thesis .
  qed
  from a have one: "submit_one E (map_option batch_of prompts) (params_or_default d sp) toks k s1
      = (Inl (EngineFailure m), \<lparr>aphrodite = e', request_counter = request_counter s1 + 1\<rparr>)"
    by (simp add: submit_one_valid LLM_add_request_raise)
  from a have "submit_phase E d prompts sp toks self
      = (Inl (EngineFailure m), \<lparr>aphrodite = e', request_counter = request_counter s1 + 1\<rparr>)"
    by (simp add: submit_phase_valid num_requests_valid split submit_loop_append one
             del: upt.simps)
  then show "LLM_generate E d prompts sp toks b self
            = Some (Inl (EngineFailure m), \<lparr>aphrodite = e', request_counter = request_counter s1 + 1\<rparr>, [])"
    by (simp add: LLM_generate_def)
next
  assume a: "submit_phase E d prompts sp toks self = (Inr (), s2)
      \<and> polls E (aphrodite s2) ss e \<and> has_unfinished_requests E e \<and> step E e = (Inl m, e')"
  then have run: "polls E (aphrodite s2) ss e" and u: "has_unfinished_requests E e"
    and st: "step E e = (Inl m, e')" by simp_all
  from a show "LLM_generate E d prompts sp toks b self
            = Some (Inl (EngineFailure m), s2\<lparr>aphrodite := e'\<rparr>,
                    if b then Tqdm_new (get_num_unfinished_requests E (aphrodite s2))
                              # replicate (length (filter finished (concat ss))) (Tqdm_update 1)
                    else [])"
    by (simp add: LLM_generate_def LLM_run_engine_def poll_loop_raise[OF run u st] tqdm_updates_def)
qed

lemma refuse_submit:
  "submit_loop fake_engine (map_option batch_of (Some (Batch [''ok'', ''fine'', ''bad'', ''later''])))
     (params_or_default 16 None) None [0..<2]
     \<lparr>aphrodite = \<lparr>running = [], script = [], refused = [''bad'']\<rparr>, request_counter = 0\<rparr>
   = (Inr (), \<lparr>aphrodite = \<lparr>running = [(''0'', ''ok''), (''1'', ''fine'')], script = [],
                               refused = [''bad'']\<rparr>,
               request_counter = 2\<rparr>)"
  by code_simp

lemma refuse_add:
  "add_request fake_engine
     (str (request_counter \<lparr>aphrodite = \<lparr>running = [(''0'', ''ok''), (''1'', ''fine'')], script = [],
                               refused = [''bad'']\<rparr>, request_counter = 2\<rparr>))
     (fst (nth_request (Some (Batch [''ok'', ''fine'', ''bad'', ''later''])) None 2))
     (params_or_default 16 None)
     (snd (nth_request (Some (Batch [''ok'', ''fine'', ''bad'', ''later''])) None 2))
     (aphrodite \<lparr>aphrodite = \<lparr>running = [(''0'', ''ok''), (''1'', ''fine'')], script = [],
                               refused = [''bad'']\<rparr>, request_counter = 2\<rparr>)
   = (Inl ''refused'', \<lparr>running = [(''0'', ''ok''), (''1'', ''fine'')], script = [],
                         refused = [''bad'']\<rparr>)"
  by code_simp

lemma boom_submit:
  "submit_phase fake_engine 16 (Some (Batch [''a'', ''b''])) None None
     (fresh_fake [Finish [''0''], Raise ''boom''])
   = (Inr (), \<lparr>aphrodite = \<lparr>running = [(''0'', ''a''), (''1'', ''b'')],
                               script = [Finish [''0''], Raise ''boom''], refused = []\<rparr>,
               request_counter = 2\<rparr>)"
  by code_simp

lemma boom_polls:
  "polls fake_engine
     \<lparr>running = [(''0'', ''a''), (''1'', ''b'')], script = [Finish [''0''], Raise ''boom''], refused = []\<rparr>
     [[\<lparr>request_id = ''0'', finished = True, payload = ''a''\<rparr>,
       \<lparr>request_id = ''1'', finished = False, payload = ''b''\<rparr>]]
     \<lparr>running = [(''1'', ''b'')], script = [Raise ''boom''], refused = []\<rparr>"
  by (rule polls_Cons[OF _ _ polls_Nil]) (simp_all add: fake_defs)

lemma boom_step:
  "step fake_engine \<lparr>running = [(''1'', ''b'')], script = [Raise ''boom''], refused = []\<rparr>
     = (Inl ''boom'', \<lparr>running = [(''1'', ''b'')], script = [], refused = []\<rparr>)"
  by (simp add: fake_defs)

text \<open>A scripted engine that refuses the third of four prompts, and one that finishes a
  request in its first step and raises in its second.\<close>

theorem engine_failure_propagates_witness:
  "LLM_generate fake_engine 16 (Some (Batch [''ok'', ''fine'', ''bad'', ''later''])) None None True
     \<lparr>aphrodite = \<lparr>running = [], script = [], refused = [''bad'']\<rparr>, request_counter = 0\<rparr>
     = Some (Inl (EngineFailure ''refused''),
             \<lparr>aphrodite = \<lparr>running = [(''0'', ''ok''), (''1'', ''fine'')], script = [],
                            refused = [''bad'']\<rparr>,
               request_counter = 3\<rparr>, [])
   \<and> LLM_generate fake_engine 16 (Some (Batch [''a'', ''b''])) None None True
       (fresh_fake [Finish [''0''], Raise ''boom''])
     = Some (Inl (EngineFailure ''boom''),
             \<lparr>aphrodite = \<lparr>running = [(''1'', ''b'')], script = [], refused = []\<rparr>,
               request_counter = 2\<rparr>,
             [Tqdm_new 2, Tqdm_update 1])"
proof -
  have valid: "\<not> invalid_arguments (Some (Batch [''ok'', ''fine'', ''bad'', ''later''])) None"
    by simp
  have k: "2 < num_requests (Some (Batch [''ok'', ''fine'', ''bad'', ''later''])) None"
    by (simp add: num_requests_def)
  have unf: "has_unfinished_requests fake_engine
               \<lparr>running = [(''1'', ''b'')], script = [Raise ''boom''], refused = []\<rparr>"
    by (simp add: fake_defs)
  from engine_failure_propagates
         [where E = fake_engine and d = 16 and sp = None and b = True
            and prompts = "Some (Batch [''ok'', ''fine'', ''bad'', ''later''])" and toks = None
            and k = 2
            and self = "\<lparr>aphrodite = \<lparr>running = [], script = [], refused = [''bad'']\<rparr>,
                          request_counter = 0\<rparr>",
          THEN conjunct1, rule_format, OF conjI[OF valid conjI[OF k conjI[OF refuse_submit refuse_add]]]]
  have first: "LLM_generate fake_engine 16 (Some (Batch [''ok'', ''fine'', ''bad'', ''later''])) None None True
     \<lparr>aphrodite = \<lparr>running = [], script = [], refused = [''bad'']\<rparr>, request_counter = 0\<rparr>
     = Some (Inl (EngineFailure ''refused''),
             \<lparr>aphrodite = \<lparr>running = [(''0'', ''ok''), (''1'', ''fine'')], script = [],
                            refused = [''bad'']\<rparr>,
               request_counter = 3\<rparr>, [])"
    by simp
  from engine_failure_propagates
         [where E = fake_engine and d = 16 and sp = None and b = True
            and prompts = "Some (Batch [''a'', ''b''])" and toks = None
            and self = "fresh_fake [Finish [''0''], Raise ''boom'']",
          THEN conjunct2, rule_format, OF conjI[OF boom_submit conjI[OF _ conjI[OF unf boom_step]]]]
       boom_polls
  have second: "LLM_generate fake_engine 16 (Some (Batch [''a'', ''b''])) None None True
       (fresh_fake [Finish [''0''], Raise ''boom''])
     = Some (Inl (EngineFailure ''boom''),
             \<lparr>aphrodite = \<lparr>running = [(''1'', ''b'')], script = [], refused = []\<rparr>,
               request_counter = 2\<rparr>,
             [Tqdm_new 2, Tqdm_update 1])"
    by (simp add: fake_defs)
  from first second show ?thesis by (rule conjI)
qed

subsection \<open>The calls that reach the engine\<close>

lemma normalize_eq_map:
  "\<not> invalid_arguments prompts toks \<Longrightarrow>
     normalize d prompts sp toks = map (req_at d prompts sp toks) [0..<num_requests prompts toks]"
  by (cases "(prompts, toks)" rule: invalid_arguments.cases)
     (auto simp: req_at_def nth_request_def num_requests_def intro!: nth_equalityI)

lemma length_expected_calls: "length (expected_calls c rs) = length rs"
  by (induction rs arbitrary: c) auto

lemma submitted_ids_expected_calls: "submitted_ids (expected_calls c rs) = map str [c..<c + length rs]"
proof (induction rs arbitrary: c)
  case Nil
  show ?case by simp
next
  case (Cons r rs)
  obtain p s t where r: "r = (p, s, t)" by (cases r)
  have "[c..<Suc c + length rs] = c # [Suc c..<Suc c + length rs]"
    by (rule upt_conv_Cons) simp
  with Cons.IH[of "Suc c"] r show ?case by simp
qed

lemma submitted_ids_append: "submitted_ids (xs @ ys) = submitted_ids xs @ submitted_ids ys"
  by (induction xs rule: submitted_ids.induct) auto

lemma take_expected_calls: "take j (expected_calls c rs) = expected_calls c (take j rs)"
proof (induction rs arbitrary: c j)
  case Nil
  show ?case by simp
next
  case (Cons r rs)
  obtain p s t where r: "r = (p, s, t)" by (cases r)
  with Cons.IH[of "j - 1" "c + 1"] show ?case by (cases j) simp_all
qed

lemma LLM_add_request_recording:
  "LLM_add_request (recording E) prompt sp tk \<lparr>aphrodite = (e, log), request_counter = c\<rparr> = (r, s') \<Longrightarrow>
     snd (aphrodite s') = log @ [Call_add_request (str c) prompt sp tk] \<and> request_counter s' = c + 1"
  by (auto simp: LLM_add_request_def Counter_next_def recording_def Let_def split: prod.splits sum.splits)

text \<open>The submission loop on a recorded engine, over indices of the batch.\<close>

lemma submit_loop_recording:
  assumes valid: "\<not> invalid_arguments prompts toks"
    and idx: "\<forall>i\<in>set is. i < num_requests prompts toks"
    and run: "submit_loop (recording E) (map_option batch_of prompts) (params_or_default d sp) toks is
                \<lparr>aphrodite = (e, log), request_counter = c\<rparr> = (r, s')"
  shows "\<exists>j\<le>length is.
           snd (aphrodite s') = log @ take j (expected_calls c (map (req_at d prompts sp toks) is))
           \<and> request_counter s' = c + j
           \<and> (r = Inr () \<longrightarrow> j = length is)"
  using idx run
proof (induction "is" arbitrary: e log c)
  case Nil
  then show ?case by auto
next
  case (Cons i "is")
  let ?s = "\<lparr>aphrodite = (e, log), request_counter = c\<rparr>"
  let ?call = "Call_add_request (str c) (fst (nth_request prompts toks i)) (params_or_default d sp)
                 (snd (nth_request prompts toks i))"
  from Cons.prems(1) have i: "i < num_requests prompts toks" by simp
  obtain r1 s1 where one: "LLM_add_request (recording E) (fst (nth_request prompts toks i))
       (params_or_default d sp) (snd (nth_request prompts toks i)) ?s = (r1, s1)"
    by (cases "LLM_add_request (recording E) (fst (nth_request prompts toks i))
       (params_or_default d sp) (snd (nth_request prompts toks i)) ?s")
  from LLM_add_request_recording[OF one]
  have log1: "snd (aphrodite s1) = log @ [?call]" and c1: "request_counter s1 = c + 1" by simp_all
  obtain e1 where s1: "s1 = \<lparr>aphrodite = (e1, log @ [?call]), request_counter = c + 1\<rparr>"
    using log1 c1 by (cases s1) (auto simp: prod_eq_iff)
  have exp: "expected_calls c (map (req_at d prompts sp toks) (i # is))
               = ?call # expected_calls (c + 1) (map (req_at d prompts sp toks) is)"
    by (simp add: req_at_def)
  show ?case
  proof (cases r1)
    case (Inl err)
    with Cons.prems(2) one i valid have "r = Inl err" "s' = s1"
      by (simp_all add: submit_one_valid)
    with log1 c1 exp show ?thesis
      by (intro exI[of _ 1]) simp
  next
    case (Inr u)
    with Cons.prems(2) one i valid s1
    have rest: "submit_loop (recording E) (map_option batch_of prompts) (params_or_default d sp) toks is
                  \<lparr>aphrodite = (e1, log @ [?call]), request_counter = c + 1\<rparr> = (r, s')"
      by (simp add: submit_one_valid)
    from Cons.prems(1) have "\<forall>i\<in>set is. i < num_requests prompts toks" by simp
    from Cons.IH[OF this rest] obtain j where j: "j \<le> length is"
      and l: "snd (aphrodite s') = (log @ [?call]) @ take j (expected_calls (c + 1) (map (req_at d prompts sp toks) is))"
      and c': "request_counter s' = c + 1 + j" and full: "r = Inr () \<longrightarrow> j = length is"
      by blast
    from j l c' full exp show ?thesis
      by (intro exI[of _ "Suc j"]) simp
  qed
qed

lemma submissions_append: "submissions (xs @ ys) = submissions xs @ submissions ys"
  by (simp add: submissions_def)

lemma submissions_expected_calls: "submissions (expected_calls c rs) = expected_calls c rs"
proof (induction rs arbitrary: c)
  case Nil
  show ?case by (simp add: submissions_def)
next
  case (Cons r rs)
  obtain p s t where "r = (p, s, t)" by (cases r)
  with Cons.IH[of "c + 1"] show ?case by (simp add: submissions_def)
qed

lemma step_recording:
  "step (recording E) x = (r, x') \<Longrightarrow> snd x' = snd x @ [Call_step]"
  by (cases x) (auto simp: recording_def split: prod.splits)

lemma polls_recording:
  "polls (recording E) x ss x' \<Longrightarrow>
     submissions (snd x') = submissions (snd x) \<and> submitted_ids (snd x') = submitted_ids (snd x)"
proof (induction rule: polls.induct)
  case (polls_Nil e)
  show ?case by simp
next
  case (polls_Cons e step_outputs e1 ss e')
  from step_recording[OF polls_Cons.hyps(2)] polls_Cons.IH show ?case
    by (simp add: submissions_def submitted_ids_append)
qed

lemma LLM_run_engine_recording:
  assumes "LLM_run_engine (recording E) b s = Some (r, s', pbar)"
  shows "submissions (snd (aphrodite s')) = submissions (snd (aphrodite s))
         \<and> submitted_ids (snd (aphrodite s')) = submitted_ids (snd (aphrodite s))
         \<and> request_counter s' = request_counter s"
proof -
  let ?pb = "if b then [Tqdm_new (get_num_unfinished_requests (recording E) (aphrodite s))] else []"
  from assms obtain r0 x' p where pl: "poll_loop (recording E) b (aphrodite s) [] ?pb = Some (r0, x', p)"
    and s': "s' = s\<lparr>aphrodite := x'\<rparr>"
    by (auto simp: LLM_run_engine_def Let_def split: option.splits sum.splits if_splits)
  from poll_loop_Some[OF pl] obtain ss x0 where run: "polls (recording E) (aphrodite s) ss x0"
    and d: "x' = x0 \<or> (\<exists>err. step (recording E) x0 = (Inl err, x'))"
    by auto
  from d have "submissions (snd x') = submissions (snd x0) \<and> submitted_ids (snd x') = submitted_ids (snd x0)"
    by (auto dest!: step_recording simp: submissions_def submitted_ids_append)
  with polls_recording[OF run] s' show ?thesis by simp
qed

lemma submitted_ids_take_expected_calls:
  "j \<le> length rs \<Longrightarrow> submitted_ids (take j (expected_calls c rs)) = map str [c..<c + j]"
  by (simp add: take_expected_calls submitted_ids_expected_calls)

text \<open>What a call with valid arguments on a recorded engine adds to the log.\<close>

lemma generate_recording_log:
  assumes valid: "\<not> invalid_arguments prompts toks"
    and ret: "LLM_generate (recording E) d prompts sp toks b
                \<lparr>aphrodite = (e, log), request_counter = c\<rparr> = Some (r, self', pbar)"
  shows "length (normalize d prompts sp toks) = num_requests prompts toks
         \<and> (\<exists>k\<le>num_requests prompts toks.
               submissions (snd (aphrodite self'))
                 = submissions log @ take k (expected_calls c (normalize d prompts sp toks))
               \<and> submitted_ids (snd (aphrodite self')) = submitted_ids log @ map str [c..<c + k]
               \<and> request_counter self' = c + k
               \<and> ((\<exists>outs. r = Inr outs) \<longrightarrow> k = num_requests prompts toks))"
proof -
  let ?s = "\<lparr>aphrodite = (e, log), request_counter = c\<rparr>"
  let ?n = "num_requests prompts toks"
  have norm: "normalize d prompts sp toks = map (req_at d prompts sp toks) [0..<?n]"
    by (rule normalize_eq_map[OF valid])
  then have len: "length (normalize d prompts sp toks) = ?n" by simp
  obtain r1 s1 where ph: "submit_phase (recording E) d prompts sp toks ?s = (r1, s1)"
    by (cases "submit_phase (recording E) d prompts sp toks ?s")
  then have sl: "submit_loop (recording E) (map_option batch_of prompts) (params_or_default d sp) toks
                   [0..<?n] ?s = (r1, s1)"
    by (simp add: submit_phase_valid[OF valid] num_requests_valid[OF valid])
  have "\<forall>i\<in>set [0..<?n]. i < ?n" by simp
  from submit_loop_recording[OF valid this sl] norm obtain j where j: "j \<le> ?n"
    and l1: "snd (aphrodite s1) = log @ take j (expected_calls c (normalize d prompts sp toks))"
    and c1: "request_counter s1 = c + j" and full: "r1 = Inr () \<longrightarrow> j = ?n"
    by auto
  have sub1: "submissions (snd (aphrodite s1))
                = submissions log @ take j (expected_calls c (normalize d prompts sp toks))"
    by (simp add: l1 submissions_append take_expected_calls submissions_expected_calls)
  from j len have ids1: "submitted_ids (snd (aphrodite s1)) = submitted_ids log @ map str [c..<c + j]"
    by (simp add: l1 submitted_ids_append submitted_ids_take_expected_calls)
  have "submissions (snd (aphrodite self'))
                 = submissions log @ take j (expected_calls c (normalize d prompts sp toks))
               \<and> submitted_ids (snd (aphrodite self')) = submitted_ids log @ map str [c..<c + j]
               \<and> request_counter self' = c + j
               \<and> ((\<exists>outs. r = Inr outs) \<longrightarrow> j = ?n)"
  proof (cases r1)
    case (Inl err)
    with ret ph have "r = Inl err" "self' = s1" by (simp_all add: LLM_generate_def)
    with sub1 ids1 c1 show ?thesis by simp
  next
    case (Inr u)
    with ret ph have "LLM_run_engine (recording E) b s1 = Some (r, self', pbar)"
      by (simp add: LLM_generate_def)
    from LLM_run_engine_recording[OF this] sub1 ids1 c1 full Inr show ?thesis by simp
  qed
  with len j show ?thesis by blast
qed


text \<open>The identifiers a call hands to a recorded engine are the renderings of the counter
  values it consumed, in order.\<close>

lemma generate_recording_ids:
  assumes ret: "LLM_generate (recording E) d prompts sp toks b s = Some (r, s', pbar)"
  shows "request_counter s \<le> request_counter s'
         \<and> submitted_ids (snd (aphrodite s'))
             = submitted_ids (snd (aphrodite s)) @ map str [request_counter s..<request_counter s']
         \<and> (\<not> invalid_arguments prompts toks \<and> (\<exists>outs. r = Inr outs)
              \<longrightarrow> request_counter s' = request_counter s + num_requests prompts toks)"
proof (cases "invalid_arguments prompts toks")
  case True
  from submit_phase_invalid[OF True, of "recording E" d sp s] ret have "s' = s"
    by (auto simp: LLM_generate_def)
  with True show ?thesis by simp
next
  case False
  obtain e log c where s: "s = \<lparr>aphrodite = (e, log), request_counter = c\<rparr>"
    by (cases s) (auto simp: prod_eq_iff)
  from generate_recording_log[OF False ret[unfolded s]] s show ?thesis by auto
qed

lemma upt_join: "a \<le> b \<Longrightarrow> b \<le> c \<Longrightarrow> [a..<b] @ [b..<c] = [a..<(c::nat)]"
  using upt_add_eq_append[of a b "c - b"] by simp

lemma generate_calls_ids:
  assumes "generate_calls (recording E) d calls s = Some (rs, s')"
  shows "request_counter s \<le> request_counter s'
         \<and> submitted_ids (snd (aphrodite s'))
             = submitted_ids (snd (aphrodite s)) @ map str [request_counter s..<request_counter s']
         \<and> ((\<forall>a\<in>set calls. \<not> invalid_arguments (arg_prompts a) (arg_prompt_token_ids a)
                             \<and> num_requests (arg_prompts a) (arg_prompt_token_ids a) = M)
              \<and> (\<forall>r\<in>set rs. \<exists>outs. r = Inr outs)
              \<longrightarrow> request_counter s' = request_counter s + length calls * M)"
  using assms
proof (induction calls arbitrary: s rs)
  case Nil
  then show ?case by simp
next
  case (Cons a as)
  from Cons.prems obtain r s1 pbar rs1
    where g: "LLM_generate (recording E) d (arg_prompts a) (arg_sampling_params a)
                (arg_prompt_token_ids a) (arg_use_tqdm a) s = Some (r, s1, pbar)"
      and rest: "generate_calls (recording E) d as s1 = Some (rs1, s')" and rs: "rs = r # rs1"
    by (auto split: option.splits prod.splits)
  from generate_recording_ids[OF g]
  have le1: "request_counter s \<le> request_counter s1"
    and ids1: "submitted_ids (snd (aphrodite s1))
             = submitted_ids (snd (aphrodite s)) @ map str [request_counter s..<request_counter s1]"
    and n1: "\<not> invalid_arguments (arg_prompts a) (arg_prompt_token_ids a) \<and> (\<exists>outs. r = Inr outs)
              \<longrightarrow> request_counter s1
                    = request_counter s + num_requests (arg_prompts a) (arg_prompt_token_ids a)"
    by simp_all
  from Cons.IH[OF rest]
  have le2: "request_counter s1 \<le> request_counter s'"
    and ids2: "submitted_ids (snd (aphrodite s'))
             = submitted_ids (snd (aphrodite s1)) @ map str [request_counter s1..<request_counter s']"
    and n2: "(\<forall>a\<in>set as. \<not> invalid_arguments (arg_prompts a) (arg_prompt_token_ids a)
                             \<and> num_requests (arg_prompts a) (arg_prompt_token_ids a) = M)
              \<and> (\<forall>r\<in>set rs1. \<exists>outs. r = Inr outs)
              \<longrightarrow> request_counter s' = request_counter s1 + length as * M"
    by simp_all
  have "map str [request_counter s..<request_counter s1] @ map str [request_counter s1..<request_counter s']
          = map str [request_counter s..<request_counter s']"
    using upt_join[OF le1 le2] by (simp flip: map_append)
  with ids1 ids2 have ids: "submitted_ids (snd (aphrodite s'))
             = submitted_ids (snd (aphrodite s)) @ map str [request_counter s..<request_counter s']"
    by simp
  from n1 n2 rs have "(\<forall>a\<in>set (a # as). \<not> invalid_arguments (arg_prompts a) (arg_prompt_token_ids a)
                             \<and> num_requests (arg_prompts a) (arg_prompt_token_ids a) = M)
              \<and> (\<forall>r\<in>set rs. \<exists>outs. r = Inr outs)
              \<longrightarrow> request_counter s' = request_counter s + length (a # as) * M"
    by auto
  with le1 le2 ids show ?case by simp
qed

text \<open>
  C4. The counter returns its current value and moves to a greater one. For any sequence of
  \<open>generate\<close> calls on one instance whose engine records its calls, starting with an empty
  log and the counter at \<open>c\<close>: the identifiers handed to the engine, in the order they were
  issued, are the renderings of \<open>c, c + 1, \<dots>\<close> up to the final counter value, so each one
  renders a value greater than all before it; they are pairwise distinct; and when each of
  the \<open>N\<close> calls has valid arguments for \<open>M\<close> requests and returns normally there are
  \<open>N * M\<close> of them.
\<close>

theorem request_ids_increase_and_never_repeat:
  "fst (Counter_next c) = c \<and> c < snd (Counter_next c)
   \<and> (generate_calls (recording E) d calls \<lparr>aphrodite = (e, []), request_counter = c\<rparr> = Some (rs, self')
        \<longrightarrow> submitted_ids (snd (aphrodite self')) = map str [c..<request_counter self']
            \<and> distinct (submitted_ids (snd (aphrodite self')))
            \<and> ((\<forall>a\<in>set calls. \<not> invalid_arguments (arg_prompts a) (arg_prompt_token_ids a)
                                \<and> num_requests (arg_prompts a) (arg_prompt_token_ids a) = M)
                 \<and> (\<forall>r\<in>set rs. \<exists>outs. r = Inr outs)
                 \<longrightarrow> length (submitted_ids (snd (aphrodite self'))) = length calls * M))"
proof (intro conjI impI)
  show "fst (Counter_next c) = c" "c < snd (Counter_next c)"
    by (simp_all add: Counter_next_def)
next
  assume run: "generate_calls (recording E) d calls \<lparr>aphrodite = (e, []), request_counter = c\<rparr>
                 = Some (rs, self')"
  from generate_calls_ids[OF run, of M]
  have le: "c \<le> request_counter self'"
    and ids: "submitted_ids (snd (aphrodite self')) = map str [c..<request_counter self']"
    and n: "(\<forall>a\<in>set calls. \<not> invalid_arguments (arg_prompts a) (arg_prompt_token_ids a)
                                \<and> num_requests (arg_prompts a) (arg_prompt_token_ids a) = M)
                 \<and> (\<forall>r\<in>set rs. \<exists>outs. r = Inr outs)
                 \<longrightarrow> request_counter self' = c + length calls * M"
    by simp_all
  show "submitted_ids (snd (aphrodite self')) = map str [c..<request_counter self']" by (rule ids)
  show "distinct (submitted_ids (snd (aphrodite self')))"
    by (simp add: ids distinct_map inj_on_def str_inj)
  assume "(\<forall>a\<in>set calls. \<not> invalid_arguments (arg_prompts a) (arg_prompt_token_ids a)
                                \<and> num_requests (arg_prompts a) (arg_prompt_token_ids a) = M)
                 \<and> (\<forall>r\<in>set rs. \<exists>outs. r = Inr outs)"
  with n have "request_counter self' = c + length calls * M" by blast
  then show "length (submitted_ids (snd (aphrodite self'))) = length calls * M"
    by (simp add: ids)
qed

lemma rec1_submit:
  "submit_phase (recording fake_engine) 16 (Some (Batch [''a'', ''b''])) (Some 7) (Some [[5], [6]])
     \<lparr>aphrodite = (\<lparr>running = [], script = [], refused = []\<rparr>, []), request_counter = 0\<rparr>
   = (Inr (), \<lparr>aphrodite = (\<lparr>running = [(''0'', ''a''), (''1'', ''b'')], script = [], refused = []\<rparr>,
                  [Call_add_request ''0'' (Some ''a'') 7 (Some [5]),
                   Call_add_request ''1'' (Some ''b'') 7 (Some [6])]),
               request_counter = 2\<rparr>)"
  by code_simp

lemma rec1_poll:
  "poll_loop (recording fake_engine) b
     (\<lparr>running = [(''0'', ''a''), (''1'', ''b'')], script = [], refused = []\<rparr>, log) [] pb
   = Some (Inr [\<lparr>request_id = ''0'', finished = True, payload = ''a''\<rparr>,
                \<lparr>request_id = ''1'', finished = True, payload = ''b''\<rparr>],
           (\<lparr>running = [], script = [], refused = []\<rparr>, log @ [Call_step]),
           pb @ (if b then [Tqdm_update 1, Tqdm_update 1] else []))"
  by (simp add: poll_loop.simps recording_simps fake_defs collect_eq tqdm_updates_def)

lemma rec1_generate:
  "LLM_generate (recording fake_engine) 16 (Some (Batch [''a'', ''b''])) (Some 7) (Some [[5], [6]]) False
     \<lparr>aphrodite = (\<lparr>running = [], script = [], refused = []\<rparr>, []), request_counter = 0\<rparr>
   = Some (Inr [\<lparr>request_id = ''0'', finished = True, payload = ''a''\<rparr>,
                \<lparr>request_id = ''1'', finished = True, payload = ''b''\<rparr>],
           \<lparr>aphrodite = (\<lparr>running = [], script = [], refused = []\<rparr>,
                  [Call_add_request ''0'' (Some ''a'') 7 (Some [5]),
                   Call_add_request ''1'' (Some ''b'') 7 (Some [6]), Call_step]),
               request_counter = 2\<rparr>, [])"
  by (simp add: LLM_generate_def rec1_submit LLM_run_engine_def rec1_poll)

lemma rec2_submit:
  "submit_phase (recording fake_engine) 16 None None (Some [[8], [9]])
     \<lparr>aphrodite = (\<lparr>running = [], script = [], refused = []\<rparr>,
                  [Call_add_request ''0'' (Some ''a'') 7 (Some [5]),
                   Call_add_request ''1'' (Some ''b'') 7 (Some [6]), Call_step]),
       request_counter = 2\<rparr>
   = (Inr (), \<lparr>aphrodite = (\<lparr>running = [(''2'', []), (''3'', [])], script = [], refused = []\<rparr>,
                  [Call_add_request ''0'' (Some ''a'') 7 (Some [5]),
                   Call_add_request ''1'' (Some ''b'') 7 (Some [6]), Call_step,
                   Call_add_request ''2'' None 16 (Some [8]),
                   Call_add_request ''3'' None 16 (Some [9])]),
               request_counter = 4\<rparr>)"
  by code_simp

lemma rec2_poll:
  "poll_loop (recording fake_engine) b
     (\<lparr>running = [(''2'', []), (''3'', [])], script = [], refused = []\<rparr>, log) [] pb
   = Some (Inr [\<lparr>request_id = ''2'', finished = True, payload = []\<rparr>,
                \<lparr>request_id = ''3'', finished = True, payload = []\<rparr>],
           (\<lparr>running = [], script = [], refused = []\<rparr>, log @ [Call_step]),
           pb @ (if b then [Tqdm_update 1, Tqdm_update 1] else []))"
  by (simp add: poll_loop.simps recording_simps fake_defs collect_eq tqdm_updates_def)

lemma rec2_generate:
  "LLM_generate (recording fake_engine) 16 None None (Some [[8], [9]]) False
     \<lparr>aphrodite = (\<lparr>running = [], script = [], refused = []\<rparr>,
                  [Call_add_request ''0'' (Some ''a'') 7 (Some [5]),
                   Call_add_request ''1'' (Some ''b'') 7 (Some [6]), Call_step]),
       request_counter = 2\<rparr>
   = Some (Inr [\<lparr>request_id = ''2'', finished = True, payload = []\<rparr>,
                \<lparr>request_id = ''3'', finished = True, payload = []\<rparr>],
           \<lparr>aphrodite = (\<lparr>running = [], script = [], refused = []\<rparr>,
                  [Call_add_request ''0'' (Some ''a'') 7 (Some [5]),
                   Call_add_request ''1'' (Some ''b'') 7 (Some [6]), Call_step,
                   Call_add_request ''2'' None 16 (Some [8]),
                   Call_add_request ''3'' None 16 (Some [9]), Call_step]),
               request_counter = 4\<rparr>, [])"
  by (simp add: LLM_generate_def rec2_submit LLM_run_engine_def rec2_poll)

lemma two_calls:
  "generate_calls (recording fake_engine) 16
     [\<lparr>arg_prompts = Some (Batch [''a'', ''b'']), arg_sampling_params = Some 7,
        arg_prompt_token_ids = Some [[5], [6]], arg_use_tqdm = False\<rparr>,
      \<lparr>arg_prompts = None, arg_sampling_params = None,
        arg_prompt_token_ids = Some [[8], [9]], arg_use_tqdm = False\<rparr>]
     \<lparr>aphrodite = (\<lparr>running = [], script = [], refused = []\<rparr>, []), request_counter = 0\<rparr>
   = Some ([Inr [\<lparr>request_id = ''0'', finished = True, payload = ''a''\<rparr>,
                 \<lparr>request_id = ''1'', finished = True, payload = ''b''\<rparr>],
            Inr [\<lparr>request_id = ''2'', finished = True, payload = []\<rparr>,
                 \<lparr>request_id = ''3'', finished = True, payload = []\<rparr>]],
           \<lparr>aphrodite = (\<lparr>running = [], script = [], refused = []\<rparr>,
                  [Call_add_request ''0'' (Some ''a'') 7 (Some [5]),
                   Call_add_request ''1'' (Some ''b'') 7 (Some [6]), Call_step,
                   Call_add_request ''2'' None 16 (Some [8]),
                   Call_add_request ''3'' None 16 (Some [9]), Call_step]),
               request_counter = 4\<rparr>)"
  by (simp add: rec1_generate rec2_generate)


text \<open>Two calls with two requests each issue the identifiers 0, 1, 2, 3.\<close>

theorem request_ids_increase_and_never_repeat_witness:
  "generate_calls (recording fake_engine) 16
     [\<lparr>arg_prompts = Some (Batch [''a'', ''b'']), arg_sampling_params = Some 7,
        arg_prompt_token_ids = Some [[5], [6]], arg_use_tqdm = False\<rparr>,
      \<lparr>arg_prompts = None, arg_sampling_params = None,
        arg_prompt_token_ids = Some [[8], [9]], arg_use_tqdm = False\<rparr>]
     \<lparr>aphrodite = (\<lparr>running = [], script = [], refused = []\<rparr>, []), request_counter = 0\<rparr>
   = Some ([Inr [\<lparr>request_id = ''0'', finished = True, payload = ''a''\<rparr>,
                 \<lparr>request_id = ''1'', finished = True, payload = ''b''\<rparr>],
            Inr [\<lparr>request_id = ''2'', finished = True, payload = []\<rparr>,
                 \<lparr>request_id = ''3'', finished = True, payload = []\<rparr>]],
           \<lparr>aphrodite = (\<lparr>running = [], script = [], refused = []\<rparr>,
                  [Call_add_request ''0'' (Some ''a'') 7 (Some [5]),
                   Call_add_request ''1'' (Some ''b'') 7 (Some [6]), Call_step,
                   Call_add_request ''2'' None 16 (Some [8]),
                   Call_add_request ''3'' None 16 (Some [9]), Call_step]),
               request_counter = 4\<rparr>)
   \<and> [''0'', ''1'', ''2'', ''3''] = map str [0..<4]
   \<and> distinct [''0'', ''1'', ''2'', ''3'']
   \<and> length [''0'', ''1'', ''2'', ''3''] = 2 * 2"
proof -
  note inst = request_ids_increase_and_never_repeat
         [where E = fake_engine and c = 0 and M = 2, THEN conjunct2, THEN conjunct2, rule_format,
          OF two_calls]
  from inst[THEN conjunct1] have ids: "[''0'', ''1'', ''2'', ''3''] = map str [0..<4]"
    by simp
  from inst[THEN conjunct2, THEN conjunct1] have dist: "distinct [''0'', ''1'', ''2'', ''3'']"
    by simp
  have all_valid: "\<forall>a\<in>set [\<lparr>arg_prompts = Some (Batch [''a'', ''b'']), arg_sampling_params = Some (7::nat),
                           arg_prompt_token_ids = Some [[5], [6]], arg_use_tqdm = False\<rparr>,
                         \<lparr>arg_prompts = None, arg_sampling_params = None,
                           arg_prompt_token_ids = Some [[8], [9]], arg_use_tqdm = False\<rparr>].
                \<not> invalid_arguments (arg_prompts a) (arg_prompt_token_ids a)
                \<and> num_requests (arg_prompts a) (arg_prompt_token_ids a) = 2"
    by (simp add: num_requests_def)
  have all_normal: "\<forall>r\<in>set ([Inr [\<lparr>request_id = ''0'', finished = True, payload = ''a''\<rparr>,
                               \<lparr>request_id = ''1'', finished = True, payload = ''b''\<rparr>],
                          Inr [\<lparr>request_id = ''2'', finished = True, payload = []\<rparr>,
                               \<lparr>request_id = ''3'', finished = True, payload = []\<rparr>]]
                            :: (error + RequestOutput list) list).
                   \<exists>outs. r = Inr outs"
    by simp
  from inst[THEN conjunct2, THEN conjunct2, rule_format, OF conjI[OF all_valid all_normal]]
  have len: "length [''0'', ''1'', ''2'', ''3''] = 2 * 2" by simp
  from two_calls ids dist len show ?thesis by blast
qed

subsection \<open>An engine that keeps its contract\<close>

lemma contract_add:
  assumes "engine_contract E Inv unfinished fuel" "Inv e" "rid \<notin> unfinished e"
    "prompt \<noteq> None \<or> toks \<noteq> None"
  shows "\<exists>e'. add_request E rid prompt sp toks e = (Inr (), e') \<and> Inv e'
              \<and> unfinished e' = insert rid (unfinished e)"
  using assms unfolding engine_contract_def by blast

lemma contract_has_unfinished:
  assumes "engine_contract E Inv unfinished fuel" "Inv e"
  shows "has_unfinished_requests E e = (unfinished e \<noteq> {})"
  using assms unfolding engine_contract_def by blast

lemma contract_step:
  assumes "engine_contract E Inv unfinished fuel" "Inv e" "unfinished e \<noteq> {}"
  shows "\<exists>outs e'. step E e = (Inr outs, e') \<and> Inv e'
              \<and> distinct (map request_id (filter finished outs))
              \<and> set (map request_id (filter finished outs)) \<subseteq> unfinished e
              \<and> unfinished e' = unfinished e - set (map request_id (filter finished outs))
              \<and> fuel e' < fuel e"
  using assms unfolding engine_contract_def by blast

text \<open>Under the contract the first \<open>k\<close> prompts of a batch are submitted normally and
  become the unfinished requests.\<close>

lemma submit_loop_contract:
  assumes con: "engine_contract E Inv unfinished fuel"
    and inv: "Inv e" and none: "unfinished e = {}" and k: "k \<le> length ps"
  shows "\<exists>e1. submit_loop E (Some ps) sp None [0..<k] \<lparr>aphrodite = e, request_counter = c\<rparr>
                 = (Inr (), \<lparr>aphrodite = e1, request_counter = c + k\<rparr>)
              \<and> Inv e1 \<and> unfinished e1 = str ` {c..<c + k}"
  using k
proof (induction k)
  case 0
  with inv none show ?case by simp
next
  case (Suc k)
  then obtain e1 where run: "submit_loop E (Some ps) sp None [0..<k] \<lparr>aphrodite = e, request_counter = c\<rparr>
                 = (Inr (), \<lparr>aphrodite = e1, request_counter = c + k\<rparr>)"
    and inv1: "Inv e1" and unf1: "unfinished e1 = str ` {c..<c + k}"
    by auto
  have fresh: "str (c + k) \<notin> unfinished e1"
    unfolding unf1 by (auto dest: str_inj)
  have "Some (ps ! k) \<noteq> None \<or> (None :: int list option) \<noteq> None" by simp
  from contract_add[OF con inv1 fresh this, of sp] obtain e2
    where add: "add_request E (str (c + k)) (Some (ps ! k)) sp None e1 = (Inr (), e2)"
      and inv2: "Inv e2" and unf2: "unfinished e2 = insert (str (c + k)) (unfinished e1)"
    by blast
  from Suc.prems have "k < length ps" by simp
  with add have one: "submit_one E (Some ps) sp None k \<lparr>aphrodite = e1, request_counter = c + k\<rparr>
                        = (Inr (), \<lparr>aphrodite = e2, request_counter = c + Suc k\<rparr>)"
    by (simp add: submit_one_def subscript_def LLM_add_request_def Counter_next_def)
  have "{c..<c + Suc k} = insert (c + k) {c..<c + k}" by auto
  with unf1 unf2 have "unfinished e2 = str ` {c..<c + Suc k}" by simp
  moreover have "submit_loop E (Some ps) sp None [0..<Suc k] \<lparr>aphrodite = e, request_counter = c\<rparr>
                 = (Inr (), \<lparr>aphrodite = e2, request_counter = c + Suc k\<rparr>)"
    by (simp add: submit_loop_append run one)
  ultimately show ?case using inv2 by blast
qed

text \<open>Under the contract the engine runs to a state without unfinished requests, reporting
  each unfinished identifier as finished exactly once on the way.\<close>

lemma polls_contract:
  assumes con: "engine_contract E Inv unfinished fuel" and inv: "Inv e"
  shows "\<exists>ss e'. polls E e ss e' \<and> \<not> has_unfinished_requests E e'
            \<and> distinct (map request_id (filter finished (concat ss)))
            \<and> set (map request_id (filter finished (concat ss))) = unfinished e"
  using inv
proof (induction "fuel e" arbitrary: e rule: less_induct)
  case less
  show ?case
  proof (cases "unfinished e = {}")
    case True
    with contract_has_unfinished[OF con less.prems] polls_Nil[of E e] show ?thesis
      by (intro exI[of _ "[]"] exI[of _ e]) simp
  next
    case False
    from contract_step[OF con less.prems False] obtain outs e1
      where st: "step E e = (Inr outs, e1)" and inv1: "Inv e1"
        and d1: "distinct (map request_id (filter finished outs))"
        and sub: "set (map request_id (filter finished outs)) \<subseteq> unfinished e"
        and unf1: "unfinished e1 = unfinished e - set (map request_id (filter finished outs))"
        and dec: "fuel e1 < fuel e"
      by blast
    from less.hyps[OF dec inv1] obtain ss e' where run: "polls E e1 ss e'"
      and idle: "\<not> has_unfinished_requests E e'"
      and d2: "distinct (map request_id (filter finished (concat ss)))"
      and s2: "set (map request_id (filter finished (concat ss))) = unfinished e1"
      by blast
    from contract_has_unfinished[OF con less.prems] False have "has_unfinished_requests E e" by simp
    from polls_Cons[OF this st run] have run': "polls E e (outs # ss) e'" .
    have "distinct (map request_id (filter finished (concat (outs # ss))))"
      using d1 d2 s2 unf1 by auto
    moreover have "set (map request_id (filter finished (concat (outs # ss)))) = unfinished e"
      using s2 unf1 sub by auto
    ultimately show ?thesis using run' idle by blast
  qed
qed

text \<open>
  C3. Let the engine satisfy its contract, and let it hold no unfinished request when
  \<open>generate\<close> is called with a list of prompts and no token ids. Then the call returns
  normally, with exactly one output for each prompt, and the identifiers of the returned
  outputs are pairwise distinct: they are the identifiers issued for the batch, the
  renderings of the counter values from the one before the call on.
\<close>

theorem generate_one_output_per_prompt:
  assumes con: "engine_contract E Inv unfinished fuel"
    and inv: "Inv (aphrodite self)" and none: "unfinished (aphrodite self) = {}"
  shows "\<exists>outs self' pbar.
           LLM_generate E d (Some (Batch ps)) sp None b self = Some (Inr outs, self', pbar)
           \<and> length outs = length ps
           \<and> distinct (map request_id outs)
           \<and> set (map request_id outs)
               = str ` {request_counter self..<request_counter self + length ps}"
proof -
  let ?c = "request_counter self"
  have self: "\<lparr>aphrodite = aphrodite self, request_counter = ?c\<rparr> = self" by simp
  from submit_loop_contract[OF con inv none order_refl, of ps "params_or_default d sp" ?c,
         unfolded self]
  obtain e1 where sub: "submit_loop E (Some ps) (params_or_default d sp) None [0..<length ps] self
                 = (Inr (), \<lparr>aphrodite = e1, request_counter = ?c + length ps\<rparr>)"
    and inv1: "Inv e1" and unf1: "unfinished e1 = str ` {?c..<?c + length ps}"
    by auto
  have valid: "\<not> invalid_arguments (Some (Batch ps)) None" by simp
  have ph: "submit_phase E d (Some (Batch ps)) sp None self
              = (Inr (), \<lparr>aphrodite = e1, request_counter = ?c + length ps\<rparr>)"
    using sub by (simp add: submit_phase_valid[OF valid])
  from polls_contract[OF con inv1] obtain ss e' where run: "polls E e1 ss e'"
    and idle: "\<not> has_unfinished_requests E e'"
    and dist: "distinct (map request_id (filter finished (concat ss)))"
    and ids: "set (map request_id (filter finished (concat ss))) = unfinished e1"
    by blast
  let ?outs = "filter finished (concat ss)"
  let ?pb = "if b then [Tqdm_new (get_num_unfinished_requests E e1)] else []"
  have "LLM_generate E d (Some (Batch ps)) sp None b self
          = Some (Inr ?outs, \<lparr>aphrodite = e', request_counter = ?c + length ps\<rparr>,
                  if b then (?pb @ tqdm_updates b (concat ss)) @ [Tqdm_close]
                  else ?pb @ tqdm_updates b (concat ss))"
    by (simp add: LLM_generate_def ph LLM_run_engine_def poll_loop_finish[OF run idle])
  moreover have "length ?outs = length ps"
  proof -
    have "length ?outs = card (set (map request_id ?outs))"
      using distinct_card[OF dist] by simp
    also have "\<dots> = card (str ` {?c..<?c + length ps})" by (simp only: ids unf1)
    also have "\<dots> = card {?c..<?c + length ps}"
      by (rule card_image) (auto simp: inj_on_def dest: str_inj)
    finally show ?thesis by simp
  qed
  moreover note dist
  moreover have "set (map request_id ?outs) = str ` {?c..<?c + length ps}"
    by (simp only: ids unf1)
  ultimately show ?thesis by blast
qed

lemma fake_finished_ids:
  "map request_id (filter finished (map (fake_output fin) rs))
     = filter (\<lambda>i. i \<in> set fin) (map fst rs)"
  by (induction rs) (auto simp: fake_output_def)

lemma fake_remaining_ids:
  "map fst (filter (\<lambda>r. fst r \<notin> set fin) rs) = filter (\<lambda>i. i \<notin> set fin) (map fst rs)"
  by (induction rs) auto

lemma fake_engine_contract:
  "engine_contract fake_engine fake_Inv fake_unfinished fake_fuel"
  unfolding engine_contract_def
proof (intro conjI allI impI)
  fix e :: fake_state and rid and prompt :: "string option" and sp :: nat
    and toks :: "int list option"
  assume a: "fake_Inv e \<and> rid \<notin> fake_unfinished e \<and> (prompt \<noteq> None \<or> toks \<noteq> None)"
  then show "\<exists>e'. add_request fake_engine rid prompt sp toks e = (Inr (), e') \<and> fake_Inv e'
              \<and> fake_unfinished e' = insert rid (fake_unfinished e)"
    by (cases prompt)
       (auto simp: fake_engine_simps fake_add_request_def fake_Inv_def fake_unfinished_def)
next
  fix e :: fake_state
  assume "fake_Inv e"
  show "has_unfinished_requests fake_engine e = (fake_unfinished e \<noteq> {})"
    by (simp add: fake_engine_simps fake_unfinished_def)
next
  fix e :: fake_state
  assume a: "fake_Inv e \<and> fake_unfinished e \<noteq> {}"
  then have run: "running e \<noteq> []" and dist: "distinct (map fst (running e))"
    and sc: "list_all no_raise (script e)" and rf: "refused e = []"
    by (auto simp: fake_Inv_def fake_unfinished_def)
  show "\<exists>outs e'. step fake_engine e = (Inr outs, e') \<and> fake_Inv e'
              \<and> distinct (map request_id (filter finished outs))
              \<and> set (map request_id (filter finished outs)) \<subseteq> fake_unfinished e
              \<and> fake_unfinished e' = fake_unfinished e - set (map request_id (filter finished outs))
              \<and> fake_fuel e' < fake_fuel e"
  proof (cases "script e")
    case Nil
    let ?outs = "map (fake_output (map fst (running e))) (running e)"
    let ?e' = "e\<lparr>running := []\<rparr>"
    from Nil have "step fake_engine e = (Inr ?outs, ?e')"
      by (simp add: fake_engine_simps fake_step_def)
    moreover from sc rf have "fake_Inv ?e'" by (simp add: fake_Inv_def)
    moreover have ids: "map request_id (filter finished ?outs) = map fst (running e)"
      by (simp add: fake_finished_ids)
    moreover from run have "fake_fuel ?e' < fake_fuel e" by (simp add: fake_fuel_def)
    ultimately show ?thesis using dist
      by (intro exI[of _ ?outs] exI[of _ ?e']) (simp add: fake_unfinished_def)
  next
    case (Cons x rest)
    show ?thesis
    proof (cases x)
      case (Raise msg)
      with Cons sc show ?thesis by simp
    next
      case (Finish fin)
      let ?outs = "map (fake_output fin) (running e)"
      let ?e' = "e\<lparr>running := filter (\<lambda>r. fst r \<notin> set fin) (running e), script := rest\<rparr>"
      from Cons Finish have "step fake_engine e = (Inr ?outs, ?e')"
        by (simp add: fake_engine_simps fake_step_def)
      moreover from sc rf dist Cons have "fake_Inv ?e'"
        by (simp add: fake_Inv_def fake_remaining_ids)
      moreover have ids: "map request_id (filter finished ?outs)
                            = filter (\<lambda>i. i \<in> set fin) (map fst (running e))"
        by (rule fake_finished_ids)
      moreover from Cons have "fake_fuel ?e' < fake_fuel e"
        by (simp add: fake_fuel_def le_imp_less_Suc)
      moreover have "fake_unfinished ?e'
                       = fake_unfinished e - set (filter (\<lambda>i. i \<in> set fin) (map fst (running e)))"
        by (auto simp: fake_unfinished_def)
      ultimately show ?thesis using dist
        by (intro exI[of _ ?outs] exI[of _ ?e']) (auto simp: fake_unfinished_def)
    qed
  qed
qed

text \<open>The strict engine keeps the contract as well, although it refuses some requests.\<close>

lemma strict_engine_simps:
  "step strict_engine = step fake_engine"
  "has_unfinished_requests strict_engine = has_unfinished_requests fake_engine"
  "prompt \<noteq> None \<or> toks \<noteq> None \<Longrightarrow>
     add_request strict_engine rid prompt sp toks s = add_request fake_engine rid prompt sp toks s"
  by (auto simp: strict_engine_def strict_add_request_def fake_engine_def)

lemma strict_engine_refuses:
  "add_request strict_engine rid None sp None s = (Inl ''empty request'', s)"
  by (simp add: strict_engine_def strict_add_request_def)

lemma strict_engine_contract:
  "engine_contract strict_engine fake_Inv fake_unfinished fake_fuel"
proof -
  note fake = fake_engine_contract[unfolded engine_contract_def]
  show ?thesis
    unfolding engine_contract_def
  proof (intro conjI allI impI)
    fix e :: fake_state and rid and prompt :: "string option" and sp :: nat
      and toks :: "int list option"
    assume a: "fake_Inv e \<and> rid \<notin> fake_unfinished e \<and> (prompt \<noteq> None \<or> toks \<noteq> None)"
    then have "prompt \<noteq> None \<or> toks \<noteq> None" by simp
    from strict_engine_simps(3)[OF this] a fake[THEN conjunct1]
    show "\<exists>e'. add_request strict_engine rid prompt sp toks e = (Inr (), e') \<and> fake_Inv e'
              \<and> fake_unfinished e' = insert rid (fake_unfinished e)"
      by simp
  next
    fix e :: fake_state
    assume "fake_Inv e"
    with fake[THEN conjunct2, THEN conjunct1]
    show "has_unfinished_requests strict_engine e = (fake_unfinished e \<noteq> {})"
      by (simp add: strict_engine_simps)
  next
    fix e :: fake_state
    assume "fake_Inv e \<and> fake_unfinished e \<noteq> {}"
    with fake[THEN conjunct2, THEN conjunct2]
    show "\<exists>outs e'. step strict_engine e = (Inr outs, e') \<and> fake_Inv e'
              \<and> distinct (map request_id (filter finished outs))
              \<and> set (map request_id (filter finished outs)) \<subseteq> fake_unfinished e
              \<and> fake_unfinished e' = fake_unfinished e - set (map request_id (filter finished outs))
              \<and> fake_fuel e' < fake_fuel e"
      by (simp add: strict_engine_simps)
  qed
qed

text \<open>The strict engine refuses a request with neither prompt nor token ids and still
  satisfies the contract, in the states whose script does not raise; on it the three
  prompts a, b, c give three outputs.\<close>

theorem generate_one_output_per_prompt_witness:
  "add_request strict_engine ''0'' None 16 None
       (aphrodite (fresh_fake [Finish [''1''], Finish [''0'', ''2'']]))
     = (Inl ''empty request'', aphrodite (fresh_fake [Finish [''1''], Finish [''0'', ''2'']]))
   \<and> engine_contract strict_engine fake_Inv fake_unfinished fake_fuel
   \<and> fake_Inv (aphrodite (fresh_fake [Finish [''1''], Finish [''0'', ''2'']]))
   \<and> fake_unfinished (aphrodite (fresh_fake [Finish [''1''], Finish [''0'', ''2'']])) = {}
   \<and> (\<exists>outs self' pbar.
         LLM_generate strict_engine 16 (Some (Batch [''a'', ''b'', ''c''])) None None True
           (fresh_fake [Finish [''1''], Finish [''0'', ''2'']]) = Some (Inr outs, self', pbar)
         \<and> length outs = length [''a'', ''b'', ''c'']
         \<and> distinct (map request_id outs)
         \<and> set (map request_id outs) = str ` {0..<0 + length [''a'', ''b'', ''c'']})"
proof -
  have inv: "fake_Inv (aphrodite (fresh_fake [Finish [''1''], Finish [''0'', ''2'']]))"
    by (simp add: fake_Inv_def fresh_fake_def)
  have none: "fake_unfinished (aphrodite (fresh_fake [Finish [''1''], Finish [''0'', ''2'']])) = {}"
    by (simp add: fake_unfinished_def fresh_fake_def)
  have c: "request_counter (fresh_fake [Finish [''1''], Finish [''0'', ''2'']]) = 0"
    by (simp add: fresh_fake_def Counter_def)
  from generate_one_output_per_prompt[OF strict_engine_contract inv none,
         of 16 "[''a'', ''b'', ''c'']" None True, unfolded c]
       strict_engine_contract inv none strict_engine_refuses
  show ?thesis by blast
qed

end
